theory Spec2Isabelle
  imports Main "HOL-Library.Char_ord" "HOL-Library.List_Lexorder"
begin

section \<open>JavaScript library functions used by the components\<close>

text \<open>
  Strings are sequences of code units, modelled as \<open>string\<close>; \<open>Char_ord\<close> and
  \<open>List_Lexorder\<close> give the code-unit-wise lexicographic order that
  \<^verbatim>\<open>Array.prototype.sort\<close> uses when it is called without a comparator.
  \<open>sort\<close> of HOL is a stable insertion sort, as the sort of the language is stable.
\<close>

text \<open>\<^verbatim>\<open>Array.prototype.join(sep)\<close> on an array of strings.\<close>

fun join :: "string \<Rightarrow> string list \<Rightarrow> string" where
  "join sep [] = []"
| "join sep [x] = x"
| "join sep (x # y # ys) = x @ sep @ join sep (y # ys)"

text \<open>
  Numbers. A Number is a double: 53 significant bits, results rounded to the nearest
  double, ties to the even mantissa. The numbers of this program are non-negative
  integers, modelled as the \<open>nat\<close> that is the exact value of the double; the range of the
  exponent plays no role for them.
\<close>

text \<open>The integer nearest to \<open>n / d\<close>, the even one of two that are equally near.\<close>

definition round_half_even :: "nat \<Rightarrow> nat \<Rightarrow> nat" where
  "round_half_even n d =
     (let q = n div d; r = n mod d
      in if 2 * r < d then q
         else if d < 2 * r then q + 1
         else if even q then q else q + 1)"

fun bit_length :: "nat \<Rightarrow> nat" where
  "bit_length n = (if n = 0 then 0 else Suc (bit_length (n div 2)))"

declare bit_length.simps [simp del]

text \<open>The Number value of an integer: the integer rounded to 53 significant bits.\<close>

definition number_value :: "nat \<Rightarrow> nat" where
  "number_value y =
     (let j = bit_length y - 53 in round_half_even y (2 ^ j) * 2 ^ j)"

text \<open>
  \<^verbatim>\<open>Math.floor(a / d)\<close> for integers \<open>a\<close> and \<open>d > 0\<close>. The quotient is rounded to 53
  significant bits first: to a multiple of \<open>2 ^ e\<close> when it is \<open>2 ^ 52\<close> or more, and
  otherwise to a multiple of \<open>1 / t\<close>, for the power of two \<open>t\<close> that brings \<open>a * t / d\<close>
  to \<open>2 ^ 52\<close> or more.
\<close>

function mantissa_scale :: "nat \<Rightarrow> nat \<Rightarrow> nat \<Rightarrow> nat" where
  "mantissa_scale a d t =
     (if a = 0 \<or> t = 0 \<or> d * 2 ^ 52 \<le> a * t then t else mantissa_scale a d (2 * t))"
  by pat_completeness auto
termination
proof (relation "measure (\<lambda>(a, d, t). d * 2 ^ 52 - a * t)", goal_cases)
  case 1
  show ?case by simp
next
  case (2 a d t)
  have e: "a * (2 * t) = a * t + a * t" by simp
  from 2 have "0 < a * t" and "a * t < d * 2 ^ 52" by simp_all
  then have "d * 2 ^ 52 - (a * t + a * t) < d * 2 ^ 52 - a * t" by linarith
  then show ?case by (simp only: in_measure prod.case e)
qed

declare mantissa_scale.simps [simp del]

definition floor_quotient :: "nat \<Rightarrow> nat \<Rightarrow> nat" where
  "floor_quotient a d =
     (if 2 ^ 52 \<le> a div d then
        (let e = bit_length (a div d) - 53
         in round_half_even a (d * 2 ^ e) * 2 ^ e)
      else
        (let t = mantissa_scale a d 1
         in round_half_even (a * t) d div t))"

text \<open>The digits of an integer in base ten.\<close>

definition digit_char :: "nat \<Rightarrow> char" where
  "digit_char d = char_of (48 + d)"

fun decimal :: "nat \<Rightarrow> string" where
  "decimal n =
     (if n < 10 then [digit_char n] else decimal (n div 10) @ [digit_char (n mod 10)])"

declare decimal.simps [simp del]

text \<open>
  \<^verbatim>\<open>Number.prototype.toString()\<close> on a Number \<open>x\<close> with a non-negative integer value. It
  prints the integer with the fewest significant digits whose Number value is \<open>x\<close>, the
  one nearest to \<open>x\<close> when there are two: \<open>shortest_from x j\<close> tries the multiples of
  \<open>10 ^ j\<close> next to \<open>x\<close>, then those of \<open>10 ^ (j - 1)\<close>, down to \<open>x\<close> itself. Up to 21
  digits are printed as they are, a longer number in exponent notation.
\<close>

fun shortest_from :: "nat \<Rightarrow> nat \<Rightarrow> nat" where
  "shortest_from x j =
     (if j = 0 then x
      else
        (let p = 10 ^ j;
             lo = (x div p) * p;
             hi = lo + p;
             lo_ok = (number_value lo = x);
             hi_ok = (number_value hi = x)
         in if lo_ok \<and> hi_ok then
              (if x - lo < hi - x then lo
               else if hi - x < x - lo then hi
               else if even (x div p) then lo else hi)
            else if lo_ok then lo
            else if hi_ok then hi
            else shortest_from x (j - 1)))"

declare shortest_from.simps [simp del]

definition shortest :: "nat \<Rightarrow> nat" where
  "shortest x = shortest_from x (length (decimal x) - 1)"

definition strip_zeros :: "string \<Rightarrow> string" where
  "strip_zeros ds = rev (dropWhile (\<lambda>c. c = CHR ''0'') (rev ds))"

definition toString :: "nat \<Rightarrow> string" where
  "toString x =
     (let digits = decimal (shortest x);
          n = length digits;
          s = strip_zeros digits
      in if n \<le> 21 then digits
         else if length s = 1 then s @ ''e+'' @ decimal (n - 1)
         else [hd s] @ ''.'' @ tl s @ ''e+'' @ decimal (n - 1))"

text \<open>
  \<^verbatim>\<open>String.prototype.padStart(targetLength, padString)\<close>: the string itself when it is long
  enough or the pad string is empty, otherwise the pad string repeated and cut to the
  missing length, in front of the string.
\<close>

definition padStart :: "string \<Rightarrow> nat \<Rightarrow> string \<Rightarrow> string" where
  "padStart s targetLength padString =
     (if targetLength \<le> length s \<or> padString = [] then s
      else take (targetLength - length s)
             (concat (replicate (targetLength - length s) padString)) @ s)"

text \<open>
  \<^verbatim>\<open>String.prototype.trim()\<close>: white space and line terminators among the code units
  below 256 are TAB, LF, VT, FF, CR, SPACE and NBSP.
\<close>

definition is_whitespace :: "char \<Rightarrow> bool" where
  "is_whitespace c = ((of_char c :: nat) \<in> {9, 10, 11, 12, 13, 32, 160})"

definition trim :: "string \<Rightarrow> string" where
  "trim s = rev (dropWhile is_whitespace (rev (dropWhile is_whitespace s)))"

text \<open>\<^verbatim>\<open>Array.prototype.findIndex\<close>: the first index whose element satisfies the
  predicate, \<open>-1\<close> when there is none.\<close>

fun findIndex :: "('a \<Rightarrow> bool) \<Rightarrow> 'a list \<Rightarrow> int" where
  "findIndex P [] = - 1"
| "findIndex P (x # xs) =
     (if P x then 0 else (let r = findIndex P xs in if r < 0 then - 1 else r + 1))"

text \<open>\<^verbatim>\<open>Array.prototype.filter\<close> with the three-argument callback
  \<open>(element, index, array)\<close>.\<close>

definition filter_indexed :: "('a \<Rightarrow> nat \<Rightarrow> 'a list \<Rightarrow> bool) \<Rightarrow> 'a list \<Rightarrow> 'a list" where
  "filter_indexed f xs = map (\<lambda>i. xs ! i) (filter (\<lambda>i. f (xs ! i) i xs) [0..<length xs])"


section \<open>Call duration display (VideoCall, both versions of the component)\<close>

text \<open>
  \<^verbatim>\<open>
  const formatDuration = (seconds: number) => {
    const mins = Math.floor(seconds / 60);
    const secs = seconds % 60;
    return `${mins.toString().padStart(2, '0')}:${secs.toString().padStart(2, '0')}`;
  };
  \<close>
  \<open>seconds\<close> is a Number with a non-negative integer value; the remainder of such a Number
  is exact.
\<close>

definition formatDuration :: "nat \<Rightarrow> string" where
  "formatDuration seconds =
     (let mins = floor_quotient seconds 60;
          secs = seconds mod 60
      in padStart (toString mins) 2 ''0'' @ '':'' @ padStart (toString secs) 2 ''0'')"


section \<open>The chat view\<close>

text \<open>
  \<^verbatim>\<open>
  const generateChatId = (userId1: string, userId2: string): string => {
    return [userId1, userId2].sort().join('_');
  };
  \<close>
\<close>

definition generateChatId :: "string \<Rightarrow> string \<Rightarrow> string" where
  "generateChatId userId1 userId2 = join ''_'' (sort [userId1, userId2])"

subsection \<open>Data\<close>

text \<open>The signed-in user of \<^verbatim>\<open>useAuth()\<close>; \<open>None\<close> in the state is \<^verbatim>\<open>null\<close>.\<close>

record auth_user =
  user_id :: string
  username :: string

text \<open>\<^verbatim>\<open>interface ChatUser\<close>.\<close>

record ChatUser =
  cu_id :: string
  cu_name :: string
  cu_avatar :: string
  cu_lastMessage :: string
  cu_timestamp :: string
  cu_unread :: nat
  cu_online :: bool

datatype sender = Me | Other

text \<open>\<^verbatim>\<open>interface Message\<close>, an entry of the displayed sequence.\<close>

record Message =
  m_id :: string
  m_text :: string
  m_timestamp :: string
  m_sender :: sender

text \<open>
  A message as the history request returns it (\<^verbatim>\<open>msg: any\<close>). \<open>r_timestamp\<close> is the time
  value \<^verbatim>\<open>new Date(msg.timestamp).getTime()\<close> of its date, in milliseconds.
\<close>

record raw_message =
  r_id :: string
  r_text :: string
  r_timestamp :: int
  r_userId :: string
  r_chatId :: string

text \<open>
  The payload of a relayed \<^verbatim>\<open>receiveMessage\<close> event. The handler reads \<^verbatim>\<open>_id\<close> with a
  fallback, so the field may be missing: \<open>None\<close> is \<^verbatim>\<open>undefined\<close>.
\<close>

record socket_message =
  e_id :: "string option"
  e_text :: string
  e_timestamp :: int
  e_userId :: string
  e_chatId :: string

datatype api_error = RequestFailed string

datatype socket_emit =
    UserOnline string
  | JoinChat string
  | SendMessage string string string int

text \<open>
  What the view does to the outside, in the order it does it: requests to
  \<^verbatim>\<open>messagesAPI\<close>, events emitted on the socket, \<^verbatim>\<open>console.error\<close> and the message sound.
  (\<^verbatim>\<open>console.log\<close> output is left out.)
\<close>

datatype chat_action =
    ApiGetMessages string
  | ApiCreateMessage string string
  | SocketEmit socket_emit
  | ConsoleError string
  | PlaySound

text \<open>The React state of \<^verbatim>\<open>Chat\<close> that the message handling reads and writes.\<close>

record chat_state =
  user :: "auth_user option"
  selectedChat :: "ChatUser option"
  message :: string
  messages :: "Message list"
  loading :: bool
  showSidebar :: bool
  unreadCounts :: "string \<rightharpoonup> nat"
  lastMessages :: "string \<rightharpoonup> string"
  actions :: "chat_action list"

definition perform :: "chat_action \<Rightarrow> chat_state \<Rightarrow> chat_state" where
  "perform a st = st\<lparr>actions := actions st @ [a]\<rparr>"

subsection \<open>Loading the history of a conversation\<close>

text \<open>
  \<^verbatim>\<open>fetchMessages\<close> is asynchronous. \<open>fetchMessages_begin\<close> is the part that runs at the call
  (\<^verbatim>\<open>setLoading(true)\<close> and the first request); it returns what the closure captured.
  \<open>fetchMessages_resume\<close> runs when the first response is there, on the state of that
  moment. \<^verbatim>\<open>messagesAPI.getMessages\<close> is a parameter: \<open>Inl\<close> is a rejected request.
\<close>

record pending_fetch =
  pf_chatId :: string
  pf_user :: "auth_user option"
  pf_selectedChat :: "ChatUser option"

definition fetchMessages_begin :: "string \<Rightarrow> chat_state \<Rightarrow> pending_fetch \<times> chat_state" where
  "fetchMessages_begin chatId st =
     (\<lparr>pf_chatId = chatId, pf_user = user st, pf_selectedChat = selectedChat st\<rparr>,
      perform (ApiGetMessages chatId) (st\<lparr>loading := True\<rparr>))"

definition isConversationMessage :: "auth_user \<Rightarrow> ChatUser \<Rightarrow> raw_message \<Rightarrow> bool" where
  "isConversationMessage u sel msg =
     ((r_userId msg = user_id u \<and> r_chatId msg = cu_id sel) \<or>
      (r_userId msg = cu_id sel \<and> r_chatId msg = user_id u) \<or>
      (r_chatId msg = user_id u \<and> r_userId msg = cu_id sel) \<or>
      (r_chatId msg = cu_id sel \<and> r_userId msg = user_id u))"

text \<open>
  \<^verbatim>\<open>allMessages.filter((msg, index, array) => ...).sort((a, b) => time(a) - time(b))\<close>.
  The comparator orders by the time value, and the sort is stable: \<open>sort_key\<close>.
\<close>

definition combinedMessages :: "auth_user \<Rightarrow> ChatUser \<Rightarrow> raw_message list \<Rightarrow> raw_message list" where
  "combinedMessages u sel allMessages =
     sort_key r_timestamp
       (filter_indexed
          (\<lambda>msg index array.
             let firstIndex = findIndex (\<lambda>m. r_id m = r_id msg) array
             in if firstIndex \<noteq> int index then False
                else isConversationMessage u sel msg)
          allMessages)"

definition formatMessage :: "(int \<Rightarrow> string) \<Rightarrow> auth_user option \<Rightarrow> raw_message \<Rightarrow> Message" where
  "formatMessage toLocaleTimeString u msg =
     \<lparr>m_id = r_id msg,
      m_text = r_text msg,
      m_timestamp = toLocaleTimeString (r_timestamp msg),
      m_sender = (if Some (r_userId msg) = map_option user_id u then Me else Other)\<rparr>"

text \<open>The legacy queries of the inner \<^verbatim>\<open>try\<close>: a rejected one leaves \<open>response\<close> as it was.\<close>

definition oldFormats ::
  "(string \<Rightarrow> api_error + raw_message list) \<Rightarrow> auth_user \<Rightarrow> ChatUser \<Rightarrow> raw_message list
     \<Rightarrow> chat_state \<Rightarrow> raw_message list \<times> chat_state" where
  "oldFormats getMessages u sel data st =
     (let st1 = perform (ApiGetMessages (user_id u)) st
      in case getMessages (user_id u) of
           Inl err \<Rightarrow> (data, st1)
         | Inr data1 \<Rightarrow>
             (let st2 = perform (ApiGetMessages (cu_id sel)) st1
              in case getMessages (cu_id sel) of
                   Inl err \<Rightarrow> (data, st2)
                 | Inr data2 \<Rightarrow> (combinedMessages u sel (data1 @ data2), st2)))"

definition fetchMessages_resume ::
  "(string \<Rightarrow> api_error + raw_message list) \<Rightarrow> (int \<Rightarrow> string) \<Rightarrow> pending_fetch
     \<Rightarrow> api_error + raw_message list \<Rightarrow> chat_state \<Rightarrow> chat_state" where
  "fetchMessages_resume getMessages toLocaleTimeString pf response st =
     (case response of
        Inl err \<Rightarrow> (perform (ConsoleError ''Failed to fetch messages:'') st)\<lparr>loading := False\<rparr>
      | Inr data \<Rightarrow>
          (let (data', st1) =
                 (case (pf_selectedChat pf, pf_user pf) of
                    (Some sel, Some u) \<Rightarrow>
                      if length data = 0 then oldFormats getMessages u sel data st
                      else (data, st)
                  | _ \<Rightarrow> (data, st));
               formattedMessages = map (formatMessage toLocaleTimeString (pf_user pf)) data'
           in st1\<lparr>messages := formattedMessages, loading := False\<rparr>))"

text \<open>The whole of \<^verbatim>\<open>fetchMessages(chatId)\<close> when nothing else happens in between.\<close>

definition fetchMessages ::
  "(string \<Rightarrow> api_error + raw_message list) \<Rightarrow> (int \<Rightarrow> string) \<Rightarrow> string
     \<Rightarrow> chat_state \<Rightarrow> chat_state" where
  "fetchMessages getMessages toLocaleTimeString chatId st =
     (let (pf, st1) = fetchMessages_begin chatId st
      in fetchMessages_resume getMessages toLocaleTimeString pf (getMessages chatId) st1)"

subsection \<open>Selecting a conversation\<close>

text \<open>
  \<^verbatim>\<open>handleSelectChat\<close>, and the part of the effect on \<^verbatim>\<open>[selectedChat, user]\<close> that runs
  before the listeners are registered. \<open>innerWidth\<close> is \<^verbatim>\<open>window.innerWidth\<close>. The effect
  only starts \<^verbatim>\<open>fetchMessages\<close>; the pending request is returned.
\<close>

definition handleSelectChat :: "nat \<Rightarrow> ChatUser \<Rightarrow> chat_state \<Rightarrow> chat_state" where
  "handleSelectChat innerWidth chat st =
     (let st1 = st\<lparr>selectedChat := Some chat\<rparr>
      in if innerWidth < 768 then st1\<lparr>showSidebar := False\<rparr> else st1)"

definition selectedChat_effect :: "nat \<Rightarrow> chat_state \<Rightarrow> pending_fetch option \<times> chat_state" where
  "selectedChat_effect innerWidth st =
     (let st1 = (case user st of
                   Some u \<Rightarrow> perform (SocketEmit (UserOnline (user_id u))) st
                 | None \<Rightarrow> st)
      in case (selectedChat st1, user st1) of
           (Some sel, Some u) \<Rightarrow>
             (let chatId = generateChatId (user_id u) (cu_id sel);
                  (pf, st2) = fetchMessages_begin chatId st1;
                  st3 = perform (SocketEmit (JoinChat chatId)) st2;
                  st4 = st3\<lparr>unreadCounts := (unreadCounts st3)(cu_id sel \<mapsto> 0)\<rparr>;
                  st5 = (if innerWidth < 768 then st4\<lparr>showSidebar := False\<rparr> else st4)
              in (Some pf, st5))
         | _ \<Rightarrow> (None, st1))"

text \<open>
  A click on an entry of the conversation list. React runs the effect again when the
  dependency \<open>selectedChat\<close> has changed.
\<close>

definition selectConversation :: "nat \<Rightarrow> ChatUser \<Rightarrow> chat_state \<Rightarrow> pending_fetch option \<times> chat_state" where
  "selectConversation innerWidth chat st =
     (let st1 = handleSelectChat innerWidth chat st
      in if selectedChat st1 = selectedChat st then (None, st1)
         else selectedChat_effect innerWidth st1)"

subsection \<open>Receiving a relayed message\<close>

text \<open>
  The listener of \<^verbatim>\<open>receiveMessage\<close>, with \<open>user\<close> and \<open>selectedChat\<close> as the effect captured
  them (the effect runs again whenever one of them changes). \<open>now\<close> is
  \<^verbatim>\<open>Date.now().toString()\<close>, read when the entry is built. The keys of \<open>unreadCounts\<close>
  and \<open>lastMessages\<close> are user ids; an id that is the name of a property that every object
  inherits (\<^verbatim>\<open>constructor\<close>, say) is not among them.
\<close>

definition receiveMessage :: "(int \<Rightarrow> string) \<Rightarrow> string \<Rightarrow> socket_message \<Rightarrow> chat_state \<Rightarrow> chat_state" where
  "receiveMessage toLocaleTimeString now newMessage st =
     (if Some (e_userId newMessage) \<noteq> map_option user_id (user st) then
        (let prev = messages st;
             messageExists = list_ex (\<lambda>msg. Some (m_id msg) = e_id newMessage) prev;
             st1 =
               (if \<not> messageExists then
                  (let formattedMessage =
                         \<lparr>m_id = (case e_id newMessage of
                                    Some i \<Rightarrow> if i \<noteq> [] then i else now
                                  | None \<Rightarrow> now),
                          m_text = e_text newMessage,
                          m_timestamp = toLocaleTimeString (e_timestamp newMessage),
                          m_sender = Other\<rparr>;
                       st2 =
                         (if selectedChat st = None
                             \<or> map_option cu_id (selectedChat st) \<noteq> Some (e_userId newMessage)
                          then st\<lparr>unreadCounts := (unreadCounts st)
                                   (e_userId newMessage \<mapsto>
                                      (case unreadCounts st (e_userId newMessage) of
                                         Some c \<Rightarrow> c | None \<Rightarrow> 0) + 1)\<rparr>
                          else st);
                       st3 = st2\<lparr>lastMessages :=
                                  (lastMessages st2)(e_userId newMessage \<mapsto> e_text newMessage)\<rparr>
                   in st3\<lparr>messages := prev @ [formattedMessage]\<rparr>)
                else st)
         in perform PlaySound st1)
      else st)"

subsection \<open>Sending a message\<close>

text \<open>
  \<^verbatim>\<open>handleSendMessage\<close> is asynchronous too. \<open>handleSendMessage_begin\<close> is the guard and
  the request to \<^verbatim>\<open>messagesAPI.createMessage\<close>; \<open>handleSendMessage_resume\<close> runs on its
  outcome (\<open>Inr\<close> carries \<^verbatim>\<open>response.data._id\<close>, \<open>Inl\<close> is the rejection that the
  \<^verbatim>\<open>catch\<close> receives), on the state of that moment. \<open>shown\<close> and \<open>sent\<close> are the two
  readings of \<^verbatim>\<open>new Date()\<close>, for the displayed entry and for the emitted event.
\<close>

record pending_send =
  ps_chatId :: string
  ps_message :: string
  ps_userId :: string
  ps_selectedId :: string

definition handleSendMessage_begin :: "chat_state \<Rightarrow> pending_send option \<times> chat_state" where
  "handleSendMessage_begin st =
     (case (selectedChat st, user st) of
        (Some sel, Some u) \<Rightarrow>
          if trim (message st) = [] then (None, st)
          else
            (let chatId = generateChatId (user_id u) (cu_id sel)
             in (Some \<lparr>ps_chatId = chatId, ps_message = message st,
                       ps_userId = user_id u, ps_selectedId = cu_id sel\<rparr>,
                 perform (ApiCreateMessage chatId (message st)) st))
      | _ \<Rightarrow> (None, st))"

definition handleSendMessage_resume ::
  "(int \<Rightarrow> string) \<Rightarrow> int \<Rightarrow> int \<Rightarrow> pending_send \<Rightarrow> api_error + string
     \<Rightarrow> chat_state \<Rightarrow> chat_state" where
  "handleSendMessage_resume toLocaleTimeString shown sent ps response st =
     (case response of
        Inl err \<Rightarrow> perform (ConsoleError ''Failed to send message:'') st
      | Inr response_id \<Rightarrow>
          (let newMessage = \<lparr>m_id = response_id,
                             m_text = ps_message ps,
                             m_timestamp = toLocaleTimeString shown,
                             m_sender = Me\<rparr>;
               st1 = st\<lparr>messages := messages st @ [newMessage]\<rparr>;
               st2 = st1\<lparr>lastMessages := (lastMessages st1)(ps_selectedId ps \<mapsto> ps_message ps)\<rparr>;
               st3 = st2\<lparr>message := []\<rparr>
           in perform (SocketEmit (SendMessage (ps_chatId ps) (ps_userId ps) (ps_message ps) sent))
                st3))"

text \<open>The whole of \<^verbatim>\<open>handleSendMessage()\<close> when nothing else happens in between.\<close>

definition handleSendMessage ::
  "(string \<Rightarrow> string \<Rightarrow> api_error + string) \<Rightarrow> (int \<Rightarrow> string) \<Rightarrow> int \<Rightarrow> int
     \<Rightarrow> chat_state \<Rightarrow> chat_state" where
  "handleSendMessage createMessage toLocaleTimeString shown sent st =
     (case handleSendMessage_begin st of
        (None, st1) \<Rightarrow> st1
      | (Some ps, st1) \<Rightarrow>
          handleSendMessage_resume toLocaleTimeString shown sent ps
            (createMessage (ps_chatId ps) (ps_message ps)) st1)"


section \<open>The call view (VideoCall with a peer connection)\<close>

subsection \<open>Data\<close>

datatype call_status = Incoming | Outgoing | Connected

datatype track_kind = AudioTrack | VideoTrack

text \<open>A \<^verbatim>\<open>MediaStreamTrack\<close>: \<open>stopped\<close> once \<^verbatim>\<open>track.stop()\<close> has been called on it.\<close>

record track =
  kind :: track_kind
  enabled :: bool
  stopped :: bool

text \<open>
  An \<^verbatim>\<open>RTCPeerConnection\<close>: the tracks added to it (stream and position in the stream), the
  candidates passed to \<^verbatim>\<open>addIceCandidate\<close>, and whether \<^verbatim>\<open>close()\<close> has been called.
\<close>

record peer_connection =
  pc_closed :: bool
  pc_tracks :: "(nat \<times> nat) list"
  pc_candidates :: "string list"

datatype call_signal =
    RejectCall string
  | EndCall string

text \<open>What the component does to the outside, in the order it does it.\<close>

datatype call_action =
    GetUserMedia bool
  | NewPeerConnection nat
  | AddIceCandidate nat string
  | SocketOn string
  | SocketOff string
  | Emit call_signal
  | ConsoleErrorMedia
  | Alert string
  | OnEndCall
  | OnRejectCall

text \<open>
  The props (\<open>isVideoCall\<close>, \<open>recipientId\<close>, \<open>callStatus\<close>, and whether the parent passed
  \<open>onRejectCall\<close>), the refs and the effect's \<open>timer\<close>, together with the objects of the
  browser that the refs point into: \<open>streams\<close> holds every \<^verbatim>\<open>MediaStream\<close> that
  \<^verbatim>\<open>getUserMedia\<close> has handed out, \<open>connections\<close> every \<^verbatim>\<open>RTCPeerConnection\<close> constructed,
  a ref is an index into them. \<open>pendingMedia\<close> counts the \<^verbatim>\<open>getUserMedia\<close> promises that
  are not settled yet, \<open>listening\<close> says whether the three signaling listeners are
  registered on the socket. \<open>gone\<close> is set when the component has been unmounted: React
  never mounts that instance again.
\<close>

record call_state =
  isVideoCall :: bool
  recipientId :: "string option"
  callStatus :: call_status
  hasOnRejectCall :: bool
  mounted :: bool
  gone :: bool
  timer :: bool
  callDuration :: nat
  localStreamRef :: "nat option"
  peerConnectionRef :: "nat option"
  localVideoSrc :: "nat option"
  streams :: "track list list"
  connections :: "peer_connection list"
  pendingMedia :: nat
  listening :: bool
  performed :: "call_action list"

definition act :: "call_action \<Rightarrow> call_state \<Rightarrow> call_state" where
  "act a st = st\<lparr>performed := performed st @ [a]\<rparr>"

definition new_call :: "bool \<Rightarrow> string option \<Rightarrow> call_status \<Rightarrow> call_state" where
  "new_call video recipient status =
     \<lparr>isVideoCall = video, recipientId = recipient, callStatus = status,
      hasOnRejectCall = False, mounted = False, gone = False, timer = False,
      callDuration = 0,
      localStreamRef = None, peerConnectionRef = None, localVideoSrc = None,
      streams = [], connections = [], pendingMedia = 0, listening = False, performed = []\<rparr>"

subsection \<open>Acquiring local media\<close>

text \<open>
  \<^verbatim>\<open>initializeMedia\<close> up to its \<^verbatim>\<open>await\<close>: the request to \<^verbatim>\<open>getUserMedia\<close>.
\<close>

definition initializeMedia_begin :: "call_state \<Rightarrow> call_state" where
  "initializeMedia_begin st =
     (act (GetUserMedia (isVideoCall st)) st)\<lparr>pendingMedia := pendingMedia st + 1\<rparr>"

text \<open>The \<^verbatim>\<open>catch\<close> block of \<^verbatim>\<open>initializeMedia\<close>.\<close>

definition initializeMedia_catch :: "call_state \<Rightarrow> call_state" where
  "initializeMedia_catch st =
     act (Alert ''Unable to access camera or microphone. Please check permissions.'')
       (act ConsoleErrorMedia st)"

text \<open>
  \<^verbatim>\<open>addTrack\<close> for the tracks of a stream, one after the other. On a closed connection
  \<^verbatim>\<open>addTrack\<close> throws (\<^verbatim>\<open>InvalidStateError\<close>): \<open>Inl\<close> is the state at the throw.
\<close>

definition addTracks :: "nat \<Rightarrow> nat \<Rightarrow> call_state \<Rightarrow> call_state + call_state" where
  "addTracks pc sid st =
     (let n = (if sid < length (streams st) then length (streams st ! sid) else 0)
      in if n = 0 \<or> \<not> pc < length (connections st) then Inr st
         else if pc_closed (connections st ! pc) then Inl st
         else Inr (st\<lparr>connections := (connections st)
                     [pc := (connections st ! pc)
                        \<lparr>pc_tracks := pc_tracks (connections st ! pc)
                                       @ map (\<lambda>i. (sid, i)) [0..<n]\<rparr>]\<rparr>))"

text \<open>
  \<^verbatim>\<open>initializeMedia\<close> after its \<^verbatim>\<open>await\<close>, when the promise resolves with a stream of the
  given tracks. The local \<^verbatim>\<open>video\<close> element exists only while the component is mounted
  and renders the video layout.
\<close>

definition initializeMedia_resolved :: "track_kind list \<Rightarrow> call_state \<Rightarrow> call_state" where
  "initializeMedia_resolved kinds st =
     (let sid = length (streams st);
          stream = map (\<lambda>k. \<lparr>kind = k, enabled = True, stopped = False\<rparr>) kinds;
          st1 = st\<lparr>streams := streams st @ [stream], pendingMedia := pendingMedia st - 1\<rparr>;
          st2 = st1\<lparr>localStreamRef := Some sid\<rparr>;
          st3 = (if mounted st2 \<and> isVideoCall st2 then st2\<lparr>localVideoSrc := Some sid\<rparr>
                 else st2)
      in case peerConnectionRef st3 of
           None \<Rightarrow> st3
         | Some pc \<Rightarrow>
             (case addTracks pc sid st3 of
                Inr st4 \<Rightarrow> st4
              | Inl st4 \<Rightarrow> initializeMedia_catch st4))"

text \<open>\<^verbatim>\<open>initializeMedia\<close> after its \<^verbatim>\<open>await\<close>, when the promise is rejected.\<close>

definition initializeMedia_rejected :: "call_state \<Rightarrow> call_state" where
  "initializeMedia_rejected st =
     initializeMedia_catch (st\<lparr>pendingMedia := pendingMedia st - 1\<rparr>)"

subsection \<open>The peer connection and the signaling listeners\<close>

definition setupPeerConnection :: "call_state \<Rightarrow> call_state" where
  "setupPeerConnection st =
     (let pc = length (connections st);
          st1 = (act (NewPeerConnection pc) st)
                  \<lparr>connections := connections st
                     @ [\<lparr>pc_closed = False, pc_tracks = [], pc_candidates = []\<rparr>],
                   peerConnectionRef := Some pc\<rparr>
      in case localStreamRef st1 of
           None \<Rightarrow> st1
         | Some sid \<Rightarrow> (case addTracks pc sid st1 of Inr st2 \<Rightarrow> st2 | Inl st2 \<Rightarrow> st2))"

text \<open>
  \<^verbatim>\<open>handleIceCandidate\<close>. The promise of \<^verbatim>\<open>addIceCandidate\<close> is rejected by a closed
  connection, and by a connection that has no remote description yet; \<open>taken\<close> says
  whether the connection, if it is open, takes this candidate. Nobody handles a rejection.
\<close>

definition handleIceCandidate :: "string \<Rightarrow> bool \<Rightarrow> call_state \<Rightarrow> call_state" where
  "handleIceCandidate candidate taken st =
     (case peerConnectionRef st of
        None \<Rightarrow> st
      | Some pc \<Rightarrow>
          (let st1 = act (AddIceCandidate pc candidate) st
           in if pc < length (connections st1) \<and> \<not> pc_closed (connections st1 ! pc) \<and> taken
              then st1\<lparr>connections := (connections st1)
                         [pc := (connections st1 ! pc)
                            \<lparr>pc_candidates := pc_candidates (connections st1 ! pc)
                                               @ [candidate]\<rparr>]\<rparr>
              else st1))"

subsection \<open>The effect on \<^verbatim>\<open>[callStatus]\<close>\<close>

definition effect_run :: "call_state \<Rightarrow> call_state" where
  "effect_run st =
     (let st1 = st\<lparr>timer := (callStatus st = Connected)\<rparr>;
          st2 = (if callStatus st1 = Connected \<or> callStatus st1 = Incoming
                 then setupPeerConnection (initializeMedia_begin st1)
                 else st1);
          st3 = act (SocketOn ''ice-candidate'')
                  (act (SocketOn ''answer'') (act (SocketOn ''offer'') st2))
      in st3\<lparr>listening := True\<rparr>)"

definition stop_tracks :: "nat \<Rightarrow> call_state \<Rightarrow> call_state" where
  "stop_tracks sid st =
     (if sid < length (streams st)
      then st\<lparr>streams := (streams st)
                [sid := map (\<lambda>t. t\<lparr>stopped := True\<rparr>) (streams st ! sid)]\<rparr>
      else st)"

definition close_connection :: "nat \<Rightarrow> call_state \<Rightarrow> call_state" where
  "close_connection pc st =
     (if pc < length (connections st)
      then st\<lparr>connections := (connections st)
                [pc := (connections st ! pc)\<lparr>pc_closed := True\<rparr>]\<rparr>
      else st)"

definition effect_cleanup :: "call_state \<Rightarrow> call_state" where
  "effect_cleanup st =
     (let st1 = (if timer st then st\<lparr>timer := False\<rparr> else st);
          st2 = (case localStreamRef st1 of
                   Some sid \<Rightarrow> stop_tracks sid st1
                 | None \<Rightarrow> st1);
          st3 = (case peerConnectionRef st2 of
                   Some pc \<Rightarrow> close_connection pc st2
                 | None \<Rightarrow> st2);
          st4 = act (SocketOff ''ice-candidate'')
                  (act (SocketOff ''answer'') (act (SocketOff ''offer'') st3))
      in st4\<lparr>listening := False\<rparr>)"

subsection \<open>Ending the call\<close>

text \<open>
  \<^verbatim>\<open>handleEndCall\<close> and \<^verbatim>\<open>handleRejectCall\<close> emit, when \<open>recipientId\<close> is truthy (given
  and not the empty string), and call the parent's callback. The
  parent (\<^verbatim>\<open>Chat\<close>) answers \<^verbatim>\<open>onEndCall\<close>, and the relayed \<^verbatim>\<open>callEnded\<close> event, with
  \<^verbatim>\<open>setShowCall(false)\<close>: the component is unmounted and React runs the cleanup.
\<close>

definition unmount :: "call_state \<Rightarrow> call_state" where
  "unmount st = (effect_cleanup st)\<lparr>mounted := False, gone := True, localVideoSrc := None\<rparr>"

definition handleEndCall :: "call_state \<Rightarrow> call_state" where
  "handleEndCall st =
     (let st1 = (case recipientId st of
                   Some r \<Rightarrow> if r \<noteq> [] then act (Emit (EndCall r)) st else st
                 | None \<Rightarrow> st)
      in act OnEndCall st1)"

definition handleRejectCall :: "call_state \<Rightarrow> call_state" where
  "handleRejectCall st =
     (let st1 = (case recipientId st of
                   Some r \<Rightarrow> if r \<noteq> [] then act (Emit (RejectCall r)) st else st
                 | None \<Rightarrow> st)
      in if hasOnRejectCall st1 then act OnRejectCall st1 else act OnEndCall st1)"

subsection \<open>The component as a reaction to events\<close>

text \<open>
  Everything runs on one thread, one event after the other: the mount, a new
  \<open>callStatus\<close> from the parent, a tick of the interval timer, the settling of a
  \<^verbatim>\<open>getUserMedia\<close> promise, a relayed candidate (with the connection's answer to it), a
  click on the red button
  (\<^verbatim>\<open>handleEndCall\<close> while connected, \<^verbatim>\<open>handleRejectCall\<close> otherwise), the relayed
  end of the call, the unmount. The handlers of the description exchange
  (\<^verbatim>\<open>handleOffer\<close>, \<^verbatim>\<open>handleAnswer\<close>, \<^verbatim>\<open>createOffer\<close>) and the two toggles neither stop a
  track nor close or replace a connection; they are not events of the model. What the
  description exchange changes for a candidate, whether the connection takes it, comes
  with the candidate event. An instance that was unmounted is not mounted again: a new
  call view is a new instance, with refs and state of its own.
\<close>

datatype call_event =
    Mount
  | StatusChange call_status
  | Tick
  | MediaResolved "track_kind list"
  | MediaRejected
  | IceCandidate string bool
  | ClickHangUp
  | RemoteEnded
  | Unmount

definition step :: "call_event \<Rightarrow> call_state \<Rightarrow> call_state" where
  "step ev st =
     (case ev of
        Mount \<Rightarrow> (if mounted st \<or> gone st then st else effect_run (st\<lparr>mounted := True\<rparr>))
      | StatusChange s \<Rightarrow>
          (if mounted st \<and> s \<noteq> callStatus st
           then effect_run ((effect_cleanup st)\<lparr>callStatus := s\<rparr>)
           else st)
      | Tick \<Rightarrow> (if timer st then st\<lparr>callDuration := callDuration st + 1\<rparr> else st)
      | MediaResolved kinds \<Rightarrow>
          (if 0 < pendingMedia st then initializeMedia_resolved kinds st else st)
      | MediaRejected \<Rightarrow>
          (if 0 < pendingMedia st then initializeMedia_rejected st else st)
      | IceCandidate c taken \<Rightarrow>
          (if listening st then handleIceCandidate c taken st else st)
      | ClickHangUp \<Rightarrow>
          (if \<not> mounted st then st
           else if callStatus st = Connected then unmount (handleEndCall st)
           else if hasOnRejectCall st then handleRejectCall st
           else unmount (handleRejectCall st))
      | RemoteEnded \<Rightarrow> (if mounted st then unmount st else st)
      | Unmount \<Rightarrow> (if mounted st then unmount st else st))"

definition run :: "call_event list \<Rightarrow> call_state \<Rightarrow> call_state" where
  "run evs st = foldl (\<lambda>s ev. step ev s) st evs"

text \<open>A media track that was handed out and never stopped.\<close>

definition live_tracks :: "call_state \<Rightarrow> (nat \<times> nat) list" where
  "live_tracks st =
     concat (map (\<lambda>sid. map (\<lambda>i. (sid, i))
                          (filter (\<lambda>i. \<not> stopped (streams st ! sid ! i))
                             [0..<length (streams st ! sid)]))
               [0..<length (streams st)])"


section \<open>Sample data\<close>

text \<open>
  One way a locale prints the time of day with two digits for hour and minute: the
  24-hour clock at UTC, for time values since the epoch.
\<close>

definition utc_hh_mm :: "int \<Rightarrow> string" where
  "utc_hh_mm t =
     padStart (decimal (nat ((t div 3600000) mod 24))) 2 ''0'' @ '':''
       @ padStart (decimal (nat ((t div 60000) mod 60))) 2 ''0''"

definition ann :: auth_user where
  "ann = \<lparr>user_id = ''u1'', username = ''ann''\<rparr>"

definition bob :: ChatUser where
  "bob = \<lparr>cu_id = ''u2'', cu_name = ''bob'', cu_avatar = ''BO'',
          cu_lastMessage = ''Start a conversation'', cu_timestamp = ''now'',
          cu_unread = 0, cu_online = True\<rparr>"

definition cat :: ChatUser where
  "cat = \<lparr>cu_id = ''u3'', cu_name = ''cat'', cu_avatar = ''CA'',
          cu_lastMessage = ''Start a conversation'', cu_timestamp = ''now'',
          cu_unread = 0, cu_online = False\<rparr>"

text \<open>Ann has the conversation with Bob open and has typed a message.\<close>

definition ann_with_bob :: chat_state where
  "ann_with_bob =
     \<lparr>user = Some ann, selectedChat = Some bob, message = ''hi'', messages = [],
      loading = False, showSidebar = True, unreadCounts = Map.empty,
      lastMessages = Map.empty, actions = []\<rparr>"

definition ann_sends_hi :: pending_send where
  "ann_sends_hi = \<lparr>ps_chatId = ''u1_u2'', ps_message = ''hi'',
                   ps_userId = ''u1'', ps_selectedId = ''u2''\<rparr>"

definition relayed :: "string option \<Rightarrow> string \<Rightarrow> socket_message" where
  "relayed i sender_id = \<lparr>e_id = i, e_text = ''yo'', e_timestamp = 45296000,
                          e_userId = sender_id, e_chatId = ''u1_u2''\<rparr>"

text \<open>Cat writes to Ann.\<close>

definition cat_writes :: socket_message where
  "cat_writes = \<lparr>e_id = Some ''m7'', e_text = ''hi ann'', e_timestamp = 45296000,
                 e_userId = ''u3'', e_chatId = ''u1_u3''\<rparr>"

text \<open>
  A history service that knows nothing under the pairing identifier, and the legacy
  per-user histories of Ann and Bob: message \<open>a\<close> is in both, message \<open>b\<close> belongs to
  Ann's conversation with Cat.
\<close>

definition ann_history :: "raw_message list" where
  "ann_history =
     [\<lparr>r_id = ''a'', r_text = ''see you'', r_timestamp = 45296000,
       r_userId = ''u1'', r_chatId = ''u2''\<rparr>,
      \<lparr>r_id = ''b'', r_text = ''hi cat'', r_timestamp = 100,
       r_userId = ''u1'', r_chatId = ''u3''\<rparr>]"

definition bob_history :: "raw_message list" where
  "bob_history =
     [\<lparr>r_id = ''c'', r_text = ''hello'', r_timestamp = 60000,
       r_userId = ''u2'', r_chatId = ''u1''\<rparr>,
      \<lparr>r_id = ''a'', r_text = ''see you'', r_timestamp = 45296000,
       r_userId = ''u1'', r_chatId = ''u2''\<rparr>]"

definition legacy_history :: "string \<Rightarrow> api_error + raw_message list" where
  "legacy_history q =
     (if q = ''u1'' then Inr ann_history
      else if q = ''u2'' then Inr bob_history
      else Inr [])"

definition video_call_to_bob :: "call_status \<Rightarrow> call_state" where
  "video_call_to_bob status = new_call True (Some ''u2'') status"


section \<open>Notions of the specification\<close>

text \<open>
  The decimal string of a number: a non-empty string of digits whose value is the number,
  without a leading zero unless it is the string of zero.
\<close>

definition digit_value :: "char \<Rightarrow> nat" where
  "digit_value c = of_char c - 48"

definition is_digit :: "char \<Rightarrow> bool" where
  "is_digit c = (48 \<le> (of_char c :: nat) \<and> (of_char c :: nat) \<le> 57)"

definition decimal_value :: "string \<Rightarrow> nat" where
  "decimal_value ds = foldl (\<lambda>acc c. 10 * acc + digit_value c) 0 ds"

definition decimal_of :: "nat \<Rightarrow> string \<Rightarrow> bool" where
  "decimal_of n ds =
     (ds \<noteq> [] \<and> list_all is_digit ds \<and> (hd ds = CHR ''0'' \<longrightarrow> ds = ''0'')
      \<and> decimal_value ds = n)"

text \<open>Left-padding with zeros to at least \<open>w\<close> characters.\<close>

definition zero_pad :: "nat \<Rightarrow> string \<Rightarrow> string" where
  "zero_pad w ds = replicate (w - length ds) CHR ''0'' @ ds"

text \<open>How often a message id appears in the displayed sequence.\<close>

definition displayed :: "string \<Rightarrow> chat_state \<Rightarrow> nat" where
  "displayed i st = length (filter (\<lambda>msg. m_id msg = i) (messages st))"

text \<open>A message whose \<open>userId\<close> and \<open>chatId\<close> pair the two participants, in either
  orientation.\<close>

definition between :: "string \<Rightarrow> string \<Rightarrow> raw_message \<Rightarrow> bool" where
  "between a b msg =
     ((r_userId msg = a \<and> r_chatId msg = b) \<or> (r_userId msg = b \<and> r_chatId msg = a))"

text \<open>Position \<open>i\<close> holds the first occurrence of its message id.\<close>

definition first_of_its_id :: "raw_message list \<Rightarrow> nat \<Rightarrow> bool" where
  "first_of_its_id xs i = (\<forall>j<i. r_id (xs ! j) \<noteq> r_id (xs ! i))"

definition kept_index :: "auth_user \<Rightarrow> ChatUser \<Rightarrow> raw_message list \<Rightarrow> nat \<Rightarrow> bool" where
  "kept_index u sel xs i =
     (first_of_its_id xs i \<and> between (user_id u) (cu_id sel) (xs ! i))"

text \<open>The call session is over when the call view is gone.\<close>

definition session_ended :: "call_state \<Rightarrow> bool" where
  "session_ended st = (\<not> mounted st)"

text \<open>
  The events that may arrive while the call view stays as it is (no status change, no
  hang-up, no unmount), and the candidates among a sequence of events.
\<close>

fun while_active :: "call_event \<Rightarrow> bool" where
  "while_active (IceCandidate c taken) = True"
| "while_active (MediaResolved kinds) = True"
| "while_active MediaRejected = True"
| "while_active Tick = True"
| "while_active ev = False"

fun candidates_of :: "call_event list \<Rightarrow> string list" where
  "candidates_of [] = []"
| "candidates_of (IceCandidate c taken # evs) = c # candidates_of evs"
| "candidates_of (ev # evs) = candidates_of evs"

text \<open>The candidates among them that the connection takes.\<close>

fun taken_of :: "call_event list \<Rightarrow> string list" where
  "taken_of [] = []"
| "taken_of (IceCandidate c taken # evs) = (if taken then c # taken_of evs else taken_of evs)"
| "taken_of (ev # evs) = taken_of evs"

text \<open>The calls of \<^verbatim>\<open>addIceCandidate\<close> among the actions: connection and candidate.\<close>

fun handed_over :: "call_action list \<Rightarrow> (nat \<times> string) list" where
  "handed_over [] = []"
| "handed_over (AddIceCandidate p c # acts) = (p, c) # handed_over acts"
| "handed_over (a # acts) = handed_over acts"

text \<open>The listeners are registered and the ref points to an open connection.\<close>

definition ready :: "nat \<Rightarrow> call_state \<Rightarrow> bool" where
  "ready p st = (listening st \<and> peerConnectionRef st = Some p \<and> p < length (connections st)
                 \<and> \<not> pc_closed (connections st ! p))"

section \<open>The pairing identifier\<close>

text \<open>
  C3. The pairing identifier of a conversation does not depend on the order of the two
  user ids: \<open>generateChatId\<close> is commutative.
\<close>

theorem generateChatId_commutative: "generateChatId a b = generateChatId b a"
  by (auto simp: generateChatId_def)


section \<open>The call duration\<close>

subsection \<open>The decimal string\<close>

lemma digit_value_digit_char: "d < 10 \<Longrightarrow> digit_value (digit_char d) = d"
  by (simp add: digit_value_def digit_char_def)

lemma is_digit_digit_char: "d < 10 \<Longrightarrow> is_digit (digit_char d)"
  by (simp add: is_digit_def digit_char_def)

lemma digit_char_zero: "digit_char 0 = CHR ''0''"
  unfolding digit_char_def by code_simp

lemma decimal_nonempty: "decimal n \<noteq> []"
  by (subst decimal.simps) simp

lemma decimal_value_snoc: "decimal_value (ds @ [c]) = 10 * decimal_value ds + digit_value c"
  by (simp add: decimal_value_def)

lemma decimal_value_decimal: "decimal_value (decimal n) = n"
proof (induction n rule: decimal.induct)
  case (1 n)
  show ?case
  proof (cases "n < 10")
    case True
    then show ?thesis
      by (subst decimal.simps) (simp add: decimal_value_def digit_value_digit_char)
  next
    case False
    with 1 have "decimal_value (decimal (n div 10)) = n div 10" by simp
    with False show ?thesis
      by (subst decimal.simps) (simp add: decimal_value_snoc digit_value_digit_char)
  qed
qed

lemma digits_decimal: "list_all is_digit (decimal n)"
proof (induction n rule: decimal.induct)
  case (1 n)
  show ?case
  proof (cases "n < 10")
    case True
    then show ?thesis
      by (subst decimal.simps) (simp add: is_digit_digit_char)
  next
    case False
    with 1 have "list_all is_digit (decimal (n div 10))" by simp
    with False show ?thesis
      by (subst decimal.simps) (simp add: is_digit_digit_char)
  qed
qed

lemma decimal_zero_iff: "decimal n = ''0'' \<longleftrightarrow> n = 0"
proof
  assume "decimal n = ''0''"
  then have "decimal_value (decimal n) = decimal_value ''0''" by simp
  moreover have "decimal_value ''0'' = 0"
    by (simp add: decimal_value_def digit_value_def)
  ultimately show "n = 0"
    by (simp add: decimal_value_decimal)
next
  assume "n = 0"
  then show "decimal n = ''0''"
    by (subst decimal.simps) (simp add: digit_char_zero)
qed

lemma decimal_no_leading_zero: "hd (decimal n) = CHR ''0'' \<Longrightarrow> decimal n = ''0''"
proof (induction n rule: decimal.induct)
  case (1 n)
  show ?case
  proof (cases "n < 10")
    case True
    from "1.prems" True have "digit_char n = CHR ''0''"
      by (subst (asm) decimal.simps) simp
    then have "digit_value (digit_char n) = digit_value (CHR ''0'')" by simp
    moreover have "digit_value (CHR ''0'') = 0" by (simp add: digit_value_def)
    ultimately have "n = 0" using True by (simp add: digit_value_digit_char)
    then show ?thesis by (simp add: decimal_zero_iff)
  next
    case False
    from "1.prems" False have "hd (decimal (n div 10)) = CHR ''0''"
      by (subst (asm) decimal.simps) (simp add: decimal_nonempty)
    with 1 False have "decimal (n div 10) = ''0''" by simp
    then have "n div 10 = 0" by (simp add: decimal_zero_iff)
    with False show ?thesis by simp
  qed
qed

lemma decimal_of_decimal: "decimal_of n (decimal n)"
  unfolding decimal_of_def
  using decimal_nonempty digits_decimal decimal_no_leading_zero decimal_value_decimal
  by blast

lemma padStart_zero: "padStart ds w ''0'' = zero_pad w ds"
  by (simp add: padStart_def zero_pad_def)

lemma length_decimal_lt10: "n < 10 \<Longrightarrow> length (decimal n) = 1"
  by (subst decimal.simps) simp

lemma length_decimal_lt100: "10 \<le> n \<Longrightarrow> n < 100 \<Longrightarrow> length (decimal n) = 2"
  by (subst decimal.simps) (simp add: length_decimal_lt10)

lemma length_zero_pad_secs: "n < 60 \<Longrightarrow> length (zero_pad 2 (decimal n)) = 2"
  by (cases "n < 10") (simp_all add: zero_pad_def length_decimal_lt10 length_decimal_lt100)

subsection \<open>Unfolding the numeric functions\<close>

lemma digit_chars:
  "digit_char 0 = CHR ''0''" "digit_char 1 = CHR ''1''" "digit_char 2 = CHR ''2''"
  "digit_char 3 = CHR ''3''" "digit_char 4 = CHR ''4''" "digit_char 5 = CHR ''5''"
  "digit_char 6 = CHR ''6''" "digit_char 7 = CHR ''7''" "digit_char 8 = CHR ''8''"
  "digit_char 9 = CHR ''9''" "digit_char (Suc 0) = CHR ''1''"
  unfolding digit_char_def by code_simp+

lemma round_half_even_eval:
  "round_half_even n d =
     (if 2 * (n mod d) < d then n div d
      else if d < 2 * (n mod d) then n div d + 1
      else if even (n div d) then n div d else n div d + 1)"
  by (simp only: round_half_even_def Let_def)

lemma number_value_eval:
  "number_value y = round_half_even y (2 ^ (bit_length y - 53)) * 2 ^ (bit_length y - 53)"
  by (simp only: number_value_def Let_def)

lemma floor_quotient_eval:
  "floor_quotient a d =
     (if 2 ^ 52 \<le> a div d then
        round_half_even a (d * 2 ^ (bit_length (a div d) - 53)) * 2 ^ (bit_length (a div d) - 53)
      else round_half_even (a * mantissa_scale a d 1) d div mantissa_scale a d 1)"
  by (simp only: floor_quotient_def Let_def)

lemma shortest_from_eval:
  "shortest_from x j =
     (if j = 0 then x
      else if number_value ((x div 10 ^ j) * 10 ^ j) = x
              \<and> number_value ((x div 10 ^ j) * 10 ^ j + 10 ^ j) = x then
              (if x - (x div 10 ^ j) * 10 ^ j < (x div 10 ^ j) * 10 ^ j + 10 ^ j - x
               then (x div 10 ^ j) * 10 ^ j
               else if (x div 10 ^ j) * 10 ^ j + 10 ^ j - x < x - (x div 10 ^ j) * 10 ^ j
               then (x div 10 ^ j) * 10 ^ j + 10 ^ j
               else if even (x div 10 ^ j) then (x div 10 ^ j) * 10 ^ j
               else (x div 10 ^ j) * 10 ^ j + 10 ^ j)
      else if number_value ((x div 10 ^ j) * 10 ^ j) = x then (x div 10 ^ j) * 10 ^ j
      else if number_value ((x div 10 ^ j) * 10 ^ j + 10 ^ j) = x
      then (x div 10 ^ j) * 10 ^ j + 10 ^ j
      else shortest_from x (j - 1))"
  by (subst shortest_from.simps) (simp only: Let_def)

lemma toString_eval:
  "toString x =
     (if length (decimal (shortest x)) \<le> 21 then decimal (shortest x)
      else if length (strip_zeros (decimal (shortest x))) = 1
      then strip_zeros (decimal (shortest x)) @ ''e+''
             @ decimal (length (decimal (shortest x)) - 1)
      else [hd (strip_zeros (decimal (shortest x)))] @ ''.''
             @ tl (strip_zeros (decimal (shortest x))) @ ''e+''
             @ decimal (length (decimal (shortest x)) - 1))"
  by (simp only: toString_def Let_def)

lemma formatDuration_eval:
  "formatDuration seconds =
     padStart (toString (floor_quotient seconds 60)) 2 ''0'' @ '':''
       @ padStart (toString (seconds mod 60)) 2 ''0''"
  by (simp only: formatDuration_def Let_def)

subsection \<open>Numbers below \<open>2 ^ 53\<close> are exact\<close>

lemma bit_length_le: "n < 2 ^ k \<Longrightarrow> bit_length n \<le> k"
proof (induction k arbitrary: n)
  case 0
  then show ?case by (simp add: bit_length.simps)
next
  case (Suc k)
  show ?case
  proof (cases "n = 0")
    case True
    then show ?thesis by (simp add: bit_length.simps)
  next
    case False
    from Suc.prems have "n div 2 < 2 ^ k" by simp
    then have "bit_length (n div 2) \<le> k" by (rule Suc.IH)
    with False show ?thesis by (subst bit_length.simps) simp
  qed
qed

lemma bit_length_gt: "2 ^ k \<le> n \<Longrightarrow> k < bit_length n"
proof (induction k arbitrary: n)
  case 0
  then show ?case by (subst bit_length.simps) simp
next
  case (Suc k)
  then have "2 ^ k \<le> n div 2" by simp
  then have "k < bit_length (n div 2)" by (rule Suc.IH)
  moreover have "0 < (2::nat) ^ Suc k" by simp
  with Suc.prems have "n \<noteq> 0" by linarith
  ultimately show ?case by (subst bit_length.simps) simp
qed

lemma bit_length_lower: "0 < n \<Longrightarrow> 2 ^ (bit_length n - 1) \<le> n"
proof (induction n rule: bit_length.induct)
  case (1 n)
  show ?case
  proof (cases "n div 2 = 0")
    case True
    with "1.prems" have "bit_length n = 1"
      by (subst bit_length.simps) (simp add: bit_length.simps)
    with "1.prems" show ?thesis by simp
  next
    case False
    with 1 have ih: "2 ^ (bit_length (n div 2) - 1) \<le> n div 2" by simp
    from False have "0 < bit_length (n div 2)"
      by (subst bit_length.simps) simp
    then have "(2::nat) ^ bit_length (n div 2) = 2 * 2 ^ (bit_length (n div 2) - 1)"
      by (cases "bit_length (n div 2)") simp_all
    with ih have "2 ^ bit_length (n div 2) \<le> 2 * (n div 2)" by simp
    also have "\<dots> \<le> n" by simp
    finally have "2 ^ bit_length (n div 2) \<le> n" .
    moreover from "1.prems" have "bit_length n = Suc (bit_length (n div 2))"
      by (subst bit_length.simps) simp
    ultimately show ?thesis by simp
  qed
qed

lemma round_half_even_lower: "n div d \<le> round_half_even n d"
  by (simp add: round_half_even_eval)

lemma round_half_even_upper:
  assumes "0 < d"
  shows "2 * d * round_half_even n d \<le> 2 * n + d"
proof -
  have n: "n = d * (n div d) + n mod d" by simp
  have "2 * d * (n div d) + 2 * (n mod d) = 2 * n"
    using n by (metis distrib_left mult.assoc)
  moreover have "round_half_even n d = n div d \<or>
      (round_half_even n d = n div d + 1 \<and> d \<le> 2 * (n mod d))"
    by (auto simp: round_half_even_eval)
  ultimately show ?thesis
    by (auto simp: algebra_simps)
qed

lemma number_value_small: "y < 2 ^ 53 \<Longrightarrow> number_value y = y"
proof -
  assume "y < 2 ^ 53"
  then have "bit_length y - 53 = 0" using bit_length_le [of y 53] by simp
  then show ?thesis by (simp add: number_value_eval round_half_even_eval)
qed

lemma number_value_large:
  assumes "2 ^ 53 \<le> y"
  shows "2 ^ 53 \<le> number_value y"
proof -
  define j where "j = bit_length y - 53"
  from assms have b: "53 < bit_length y" by (rule bit_length_gt)
  then have j: "0 < j" and bj: "bit_length y - 1 = 52 + j" by (simp_all add: j_def)
  from assms have "0 < y" by (simp add: less_le_trans [of 0 "2 ^ 53"])
  then have "2 ^ (52 + j) \<le> y" using bit_length_lower [of y] bj by simp
  then have "(2::nat) ^ 52 * 2 ^ j \<le> y" by (simp add: power_add)
  then have "2 ^ 52 \<le> y div 2 ^ j"
    by (simp add: less_eq_div_iff_mult_less_eq)
  also have "\<dots> \<le> round_half_even y (2 ^ j)" by (rule round_half_even_lower)
  finally have "2 ^ 52 * 2 ^ j \<le> round_half_even y (2 ^ j) * 2 ^ j" by simp
  moreover from j have "(2::nat) ^ 1 \<le> 2 ^ j"
    by (intro power_increasing) simp_all
  then have "(2::nat) ^ 53 \<le> 2 ^ 52 * 2 ^ j" by simp
  ultimately show ?thesis
    unfolding number_value_eval j_def [symmetric] by linarith
qed

lemma number_value_eq_small:
  assumes "x < 2 ^ 53" and "number_value y = x"
  shows "y = x"
proof (cases "y < 2 ^ 53")
  case True
  with assms(2) show ?thesis by (simp add: number_value_small)
next
  case False
  then have "2 ^ 53 \<le> number_value y" by (intro number_value_large) simp
  with assms show ?thesis by simp
qed

lemma shortest_from_small:
  assumes "x < 2 ^ 53"
  shows "shortest_from x j = x"
proof (induction j)
  case 0
  show ?case by (subst shortest_from_eval) simp
next
  case (Suc j)
  define p :: nat where "p = 10 ^ Suc j"
  have p: "0 < p" by (simp add: p_def)
  have lo: "number_value (x div p * p) = x \<longleftrightarrow> x div p * p = x"
  proof
    assume "number_value (x div p * p) = x"
    then show "x div p * p = x" using assms by (rule number_value_eq_small [rotated])
  next
    assume e: "x div p * p = x"
    with assms show "number_value (x div p * p) = x" by (simp add: number_value_small)
  qed
  have "x < x div p * p + p"
    using p by (metis add.commute div_mult_mod_eq add_less_cancel_left mod_less_divisor)
  then have hi: "number_value (x div p * p + p) \<noteq> x"
    using number_value_eq_small [OF assms, of "x div p * p + p"] by auto
  have "shortest_from x (Suc j) = (if x div p * p = x then x div p * p else shortest_from x j)"
    by (subst shortest_from_eval) (simp add: lo hi p_def [symmetric] del: power_Suc)
  with Suc show ?case by simp
qed

lemma length_decimal_le: "0 < k \<Longrightarrow> n < 10 ^ k \<Longrightarrow> length (decimal n) \<le> k"
proof (induction k arbitrary: n)
  case 0
  then show ?case by simp
next
  case (Suc k)
  show ?case
  proof (cases "n < 10")
    case True
    then show ?thesis by (subst decimal.simps) simp
  next
    case False
    with Suc.prems have k: "0 < k" by (cases k) simp_all
    from Suc.prems have "n div 10 < 10 ^ k" by simp
    with k have "length (decimal (n div 10)) \<le> k" by (rule Suc.IH)
    with False show ?thesis by (subst decimal.simps) simp
  qed
qed

lemma toString_small:
  assumes "x < 2 ^ 53"
  shows "toString x = decimal x"
proof -
  have s: "shortest x = x" by (simp add: shortest_def shortest_from_small [OF assms])
  have "(2::nat) ^ 53 < 10 ^ 16" by simp
  with assms have "x < 10 ^ 16" by (rule less_trans)
  then have "length (decimal x) \<le> 16" by (intro length_decimal_le) simp_all
  then show ?thesis by (simp add: toString_eval s)
qed

lemma mantissa_scale_spec:
  "0 < t \<Longrightarrow> 0 < mantissa_scale a d t \<and> (a = 0 \<or> d * 2 ^ 52 \<le> a * mantissa_scale a d t)"
proof (induction a d t rule: mantissa_scale.induct)
  case (1 a d t)
  show ?case
  proof (cases "a = 0 \<or> t = 0 \<or> d * 2 ^ 52 \<le> a * t")
    case True
    then have "mantissa_scale a d t = t" by (subst mantissa_scale.simps) simp
    with True "1.prems" show ?thesis by auto
  next
    case False
    then have "mantissa_scale a d t = mantissa_scale a d (2 * t)"
      by (subst mantissa_scale.simps) simp
    moreover from False "1.prems" have
      "0 < mantissa_scale a d (2 * t)
         \<and> (a = 0 \<or> d * 2 ^ 52 \<le> a * mantissa_scale a d (2 * t))"
      by (intro "1.IH") simp_all
    ultimately show ?thesis by simp
  qed
qed

lemma floor_quotient_small:
  assumes "s < 2 ^ 53"
  shows "floor_quotient s 60 = s div 60"
proof -
  define t where "t = mantissa_scale s 60 1"
  define m where "m = round_half_even (s * t) 60"
  define q where "q = s div 60"
  have t: "0 < t" and st: "s = 0 \<or> 60 * 2 ^ 52 \<le> s * t"
    using mantissa_scale_spec [of 1 s 60] by (simp_all add: t_def)
  have "s div 60 < 2 ^ 52" using assms by simp
  then have fq: "floor_quotient s 60 = m div t"
    by (simp add: floor_quotient_eval t_def m_def)
  have lower: "q * t \<le> m"
  proof -
    have "60 * q \<le> s" by (simp add: q_def)
    then have "60 * (q * t) \<le> s * t" by (metis mult.assoc mult_le_mono1)
    then have "q * t \<le> (s * t) div 60" by (simp add: less_eq_div_iff_mult_less_eq mult.commute)
    also have "\<dots> \<le> m" unfolding m_def by (rule round_half_even_lower)
    finally show ?thesis .
  qed
  have upper: "m < (q + 1) * t"
  proof (cases "s = 0")
    case True
    with t show ?thesis by (simp add: m_def round_half_even_eval)
  next
    case False
    with st have big: "60 * 2 ^ 52 \<le> s * t" by simp
    have "30 < t"
    proof (rule ccontr)
      assume "\<not> 30 < t"
      then have "t \<le> 30" by simp
      then have "s * t \<le> s * 30" by simp
      also from assms have "\<dots> < 2 ^ 53 * 30" by simp
      finally show False using big by simp
    qed
    have "s < 60 * q + 60" unfolding q_def
      using mod_less_divisor [of 60 s] div_mult_mod_eq [of s 60] by linarith
    then have "s + 1 \<le> 60 * (q + 1)" by simp
    then have "(s + 1) * t \<le> 60 * (q + 1) * t" by (rule mult_le_mono1)
    then have "2 * (s * t) + 2 * t \<le> 120 * ((q + 1) * t)" by (simp add: algebra_simps)
    moreover have "120 * m \<le> 2 * (s * t) + 60"
      using round_half_even_upper [of 60 "s * t"] by (simp add: m_def)
    ultimately have "120 * m < 120 * ((q + 1) * t)" using \<open>30 < t\<close> by linarith
    then show ?thesis by simp
  qed
  from lower upper t have "m div t = q"
    by (metis add.commute div_nat_eqI mult.commute plus_1_eq_Suc mult_Suc)
  with fq show ?thesis by (simp add: q_def)
qed

subsection \<open>The displayed duration\<close>

text \<open>
  C10, as stated, fails: for the Number \<open>60 * 2 ^ 60\<close> the minutes are \<open>2 ^ 60\<close>, whose
  decimal string is 1152921504606846976, and \<open>toString\<close> prints the shortest digits that
  identify the double, 1152921504606847000.
\<close>

theorem formatDuration_beyond_exact_integers:
  "number_value 69175290276410818560 = 69175290276410818560
   \<and> formatDuration 69175290276410818560 = ''1152921504606847000:00''
   \<and> zero_pad 2 (decimal (69175290276410818560 div 60)) @ '':''
       @ zero_pad 2 (decimal (69175290276410818560 mod 60)) = ''1152921504606846976:00''"
proof -
  have v: "number_value 69175290276410818560 = 69175290276410818560"
    by (simp add: number_value_eval round_half_even_eval bit_length.simps)
  have q: "floor_quotient 69175290276410818560 60 = 1152921504606846976"
    by (simp add: floor_quotient_eval round_half_even_eval bit_length.simps)
  have d: "decimal 1152921504606846976 = ''1152921504606846976''"
    by (simp add: decimal.simps digit_chars)
  have s: "shortest 1152921504606846976 = 1152921504606847000"
    unfolding shortest_def d
    by (simp add: shortest_from_eval number_value_eval round_half_even_eval bit_length.simps)
  have d': "decimal 1152921504606847000 = ''1152921504606847000''"
    by (simp add: decimal.simps digit_chars)
  have m: "toString 1152921504606846976 = ''1152921504606847000''"
    unfolding toString_eval s d' by simp
  have z': "decimal 0 = ''0''"
    by (simp add: decimal.simps digit_chars)
  have z: "toString 0 = ''0''"
    by (simp add: toString_small z')
  have f: "formatDuration 69175290276410818560 = ''1152921504606847000:00''"
    unfolding formatDuration_eval q m by (simp add: z padStart_def)
  have e: "(69175290276410818560::nat) div 60 = 1152921504606846976"
    "(69175290276410818560::nat) mod 60 = 0"
    by simp_all
  have "zero_pad 2 (decimal (69175290276410818560 div 60)) @ '':''
       @ zero_pad 2 (decimal (69175290276410818560 mod 60)) = ''1152921504606846976:00''"
    unfolding e d z' by (simp add: zero_pad_def)
  with v f show ?thesis by blast
qed

text \<open>
  C10, amended. For every number of seconds \<open>s\<close> below \<open>2 ^ 53\<close>, \<open>formatDuration s\<close> is
  the decimal string of \<open>s div 60\<close>, left-padded with zeros to at least two characters, a
  colon, and the decimal string of \<open>s mod 60\<close>, left-padded to exactly two characters.
  The minutes are not wrapped at 60: 3600 seconds are shown as 60:00.
\<close>

theorem formatDuration_decimal:
  assumes "s < 2 ^ 53"
  shows "decimal_of (s div 60) (decimal (s div 60))
   \<and> decimal_of (s mod 60) (decimal (s mod 60))
   \<and> formatDuration s
       = zero_pad 2 (decimal (s div 60)) @ '':'' @ zero_pad 2 (decimal (s mod 60))
   \<and> 2 \<le> length (zero_pad 2 (decimal (s div 60)))
   \<and> length (zero_pad 2 (decimal (s mod 60))) = 2
   \<and> formatDuration 3600 = ''60:00''"
proof -
  have exact: "formatDuration n
       = zero_pad 2 (decimal (n div 60)) @ '':'' @ zero_pad 2 (decimal (n mod 60))"
    if "n < 2 ^ 53" for n
  proof -
    from that have "n div 60 < 2 ^ 53" by simp
    then have mins: "toString (n div 60) = decimal (n div 60)" by (rule toString_small)
    have "n mod 60 < 2 ^ 53" by (simp add: less_trans [of _ 60])
    then have secs: "toString (n mod 60) = decimal (n mod 60)" by (rule toString_small)
    show ?thesis
      unfolding formatDuration_eval floor_quotient_small [OF that] mins secs
      by (simp add: padStart_zero)
  qed
  have "formatDuration 3600 = zero_pad 2 (decimal (3600 div 60)) @ '':''
          @ zero_pad 2 (decimal (3600 mod 60))"
    by (rule exact) simp
  then have "formatDuration 3600 = ''60:00''"
    by (simp add: zero_pad_def decimal.simps digit_chars)
  moreover have "2 \<le> length (zero_pad 2 (decimal (s div 60)))"
    by (simp add: zero_pad_def)
  moreover have "length (zero_pad 2 (decimal (s mod 60))) = 2"
    by (simp add: length_zero_pad_secs)
  moreover note exact [OF assms]
  ultimately show ?thesis
    using decimal_of_decimal by blast
qed

text \<open>C10, amended, at an input: one hour, one minute and one second.\<close>

theorem formatDuration_decimal_witness:
  "(3661::nat) < 2 ^ 53 \<and> decimal_of 61 ''61'' \<and> decimal_of 1 ''1''
   \<and> formatDuration 3661 = ''61:01''"
proof -
  have h: "(3661::nat) < 2 ^ 53" by simp
  have a: "decimal 61 = ''61''" by (simp add: decimal.simps digit_chars)
  have b: "decimal (Suc 0) = ''1''" by (simp add: decimal.simps digit_chars)
  have d: "zero_pad 2 ''61'' = ''61''" "zero_pad 2 ''1'' = ''01''"
    by (simp_all add: zero_pad_def)
  show ?thesis
    using formatDuration_decimal [OF h] by (simp add: a b d)
qed


section \<open>Sending a message\<close>

lemma utc_hh_mm_sample: "utc_hh_mm 45296000 = ''12:34''"
  by (simp add: utc_hh_mm_def padStart_def decimal.simps digit_chars)

lemma chatId_ann_bob: "generateChatId ''u1'' ''u2'' = ''u1_u2''"
  by (simp add: generateChatId_def)

lemma trim_hi: "trim ''hi'' = ''hi''"
  by (simp add: trim_def is_whitespace_def)

lemma begin_ann_sends_hi:
  "handleSendMessage_begin ann_with_bob
     = (Some ann_sends_hi, perform (ApiCreateMessage ''u1_u2'' ''hi'') ann_with_bob)"
  by (simp add: handleSendMessage_begin_def ann_with_bob_def ann_def bob_def trim_hi
        chatId_ann_bob ann_sends_hi_def Let_def)

text \<open>
  C7. A send that passes the guard first issues the persistence request, for the pairing
  identifier of the user and the open conversation, and displays nothing yet. When the
  request fails, the displayed sequence of that moment is left as it is, the failure is
  logged, nothing is emitted and no second request is made. When it succeeds with id
  \<open>i\<close>, the message is appended to the display under \<open>i\<close> and then broadcast.
\<close>

theorem handleSendMessage_persists_first:
  assumes "handleSendMessage_begin st = (Some ps, st1)"
  shows "messages st1 = messages st
       \<and> actions st1 = actions st @ [ApiCreateMessage (ps_chatId ps) (ps_message ps)]
       \<and> (\<exists>u sel. user st = Some u \<and> selectedChat st = Some sel
              \<and> ps_chatId ps = generateChatId (user_id u) (cu_id sel)
              \<and> ps_message ps = message st)
       \<and> messages (handleSendMessage_resume fmt shown sent ps (Inl err) st2) = messages st2
       \<and> actions (handleSendMessage_resume fmt shown sent ps (Inl err) st2)
           = actions st2 @ [ConsoleError ''Failed to send message:'']
       \<and> messages (handleSendMessage_resume fmt shown sent ps (Inr i) st2)
           = messages st2 @ [\<lparr>m_id = i, m_text = ps_message ps,
                               m_timestamp = fmt shown, m_sender = Me\<rparr>]
       \<and> actions (handleSendMessage_resume fmt shown sent ps (Inr i) st2)
           = actions st2
             @ [SocketEmit (SendMessage (ps_chatId ps) (ps_userId ps) (ps_message ps) sent)]"
proof -
  from assms have a: "messages st1 = messages st
       \<and> actions st1 = actions st @ [ApiCreateMessage (ps_chatId ps) (ps_message ps)]
       \<and> (\<exists>u sel. user st = Some u \<and> selectedChat st = Some sel
              \<and> ps_chatId ps = generateChatId (user_id u) (cu_id sel)
              \<and> ps_message ps = message st)"
    by (auto simp: handleSendMessage_begin_def perform_def Let_def
             split: option.splits if_splits)
  have b: "messages (handleSendMessage_resume fmt shown sent ps (Inl err) st2) = messages st2
       \<and> actions (handleSendMessage_resume fmt shown sent ps (Inl err) st2)
           = actions st2 @ [ConsoleError ''Failed to send message:'']"
    by (simp add: handleSendMessage_resume_def perform_def)
  have c: "messages (handleSendMessage_resume fmt shown sent ps (Inr i) st2)
           = messages st2 @ [\<lparr>m_id = i, m_text = ps_message ps,
                               m_timestamp = fmt shown, m_sender = Me\<rparr>]
       \<and> actions (handleSendMessage_resume fmt shown sent ps (Inr i) st2)
           = actions st2
             @ [SocketEmit (SendMessage (ps_chatId ps) (ps_userId ps) (ps_message ps) sent)]"
    by (simp add: handleSendMessage_resume_def perform_def Let_def)
  from a b c show ?thesis by blast
qed

text \<open>
  C7, at an input: Ann sends a message to Bob. With a failing persistence request nothing is
  displayed and nothing is emitted; with the answer \<open>m100\<close> the message is displayed
  under that id and broadcast.
\<close>

theorem handleSendMessage_persists_first_witness:
  "handleSendMessage_begin ann_with_bob
     = (Some ann_sends_hi, perform (ApiCreateMessage ''u1_u2'' ''hi'') ann_with_bob)
   \<and> messages (handleSendMessage_resume utc_hh_mm 45296000 45296002 ann_sends_hi
                 (Inl (RequestFailed ''500''))
                 (perform (ApiCreateMessage ''u1_u2'' ''hi'') ann_with_bob)) = []
   \<and> actions (handleSendMessage_resume utc_hh_mm 45296000 45296002 ann_sends_hi
                 (Inl (RequestFailed ''500''))
                 (perform (ApiCreateMessage ''u1_u2'' ''hi'') ann_with_bob))
       = [ApiCreateMessage ''u1_u2'' ''hi'', ConsoleError ''Failed to send message:'']
   \<and> messages (handleSendMessage_resume utc_hh_mm 45296000 45296002 ann_sends_hi (Inr ''m100'')
                 (perform (ApiCreateMessage ''u1_u2'' ''hi'') ann_with_bob))
       = [\<lparr>m_id = ''m100'', m_text = ''hi'', m_timestamp = ''12:34'', m_sender = Me\<rparr>]
   \<and> actions (handleSendMessage_resume utc_hh_mm 45296000 45296002 ann_sends_hi (Inr ''m100'')
                 (perform (ApiCreateMessage ''u1_u2'' ''hi'') ann_with_bob))
       = [ApiCreateMessage ''u1_u2'' ''hi'',
          SocketEmit (SendMessage ''u1_u2'' ''u1'' ''hi'' 45296002)]"
proof -
  note persists = handleSendMessage_persists_first [OF begin_ann_sends_hi,
          of utc_hh_mm 45296000 45296002 "RequestFailed ''500''"
             "perform (ApiCreateMessage ''u1_u2'' ''hi'') ann_with_bob" "''m100''"]
  have requested:
    "messages (perform (ApiCreateMessage ''u1_u2'' ''hi'') ann_with_bob) = []"
    "actions (perform (ApiCreateMessage ''u1_u2'' ''hi'') ann_with_bob)
       = [ApiCreateMessage ''u1_u2'' ''hi'']"
    by (simp_all add: perform_def ann_with_bob_def)
  have pending: "ps_chatId ann_sends_hi = ''u1_u2''" "ps_message ann_sends_hi = ''hi''"
    "ps_userId ann_sends_hi = ''u1''"
    by (simp_all add: ann_sends_hi_def)
  from persists
  have "messages (handleSendMessage_resume utc_hh_mm 45296000 45296002 ann_sends_hi
                 (Inl (RequestFailed ''500''))
                 (perform (ApiCreateMessage ''u1_u2'' ''hi'') ann_with_bob)) = []"
    and "actions (handleSendMessage_resume utc_hh_mm 45296000 45296002 ann_sends_hi
                 (Inl (RequestFailed ''500''))
                 (perform (ApiCreateMessage ''u1_u2'' ''hi'') ann_with_bob))
       = [ApiCreateMessage ''u1_u2'' ''hi'', ConsoleError ''Failed to send message:'']"
    and "messages (handleSendMessage_resume utc_hh_mm 45296000 45296002 ann_sends_hi (Inr ''m100'')
                 (perform (ApiCreateMessage ''u1_u2'' ''hi'') ann_with_bob))
       = [\<lparr>m_id = ''m100'', m_text = ''hi'', m_timestamp = ''12:34'', m_sender = Me\<rparr>]"
    and "actions (handleSendMessage_resume utc_hh_mm 45296000 45296002 ann_sends_hi (Inr ''m100'')
                 (perform (ApiCreateMessage ''u1_u2'' ''hi'') ann_with_bob))
       = [ApiCreateMessage ''u1_u2'' ''hi'',
          SocketEmit (SendMessage ''u1_u2'' ''u1'' ''hi'' 45296002)]"
    unfolding requested pending utc_hh_mm_sample by simp_all
  with begin_ann_sends_hi show ?thesis by blast
qed


section \<open>Selecting a conversation\<close>

lemma chatId_ann_cat: "generateChatId ''u1'' ''u3'' = ''u1_u3''"
  by (simp add: generateChatId_def)

text \<open>
  C8. When a user is signed in and the selection changes to conversation \<open>chat\<close>, the
  unread counter of \<open>chat\<close> is zero afterwards, the pairing identifier of the user and
  \<open>chat\<close> is computed anew, and the history is requested under it (the view is loading).
\<close>

theorem selectConversation_resets_unread:
  assumes "user st = Some u" and "selectedChat st \<noteq> Some chat"
  shows "unreadCounts (snd (selectConversation w chat st)) (cu_id chat) = Some 0
       \<and> selectedChat (snd (selectConversation w chat st)) = Some chat
       \<and> map_option pf_chatId (fst (selectConversation w chat st))
           = Some (generateChatId (user_id u) (cu_id chat))
       \<and> loading (snd (selectConversation w chat st))
       \<and> actions (snd (selectConversation w chat st))
           = actions st
             @ [SocketEmit (UserOnline (user_id u)),
                ApiGetMessages (generateChatId (user_id u) (cu_id chat)),
                SocketEmit (JoinChat (generateChatId (user_id u) (cu_id chat)))]"
  using assms
  by (auto simp: selectConversation_def handleSelectChat_def selectedChat_effect_def
        fetchMessages_begin_def perform_def Let_def)

text \<open>
  C8, at an input: Ann, in the conversation with Bob and with two unread messages of Cat,
  selects Cat.
\<close>

theorem selectConversation_resets_unread_witness:
  "user (ann_with_bob\<lparr>unreadCounts := [''u3'' \<mapsto> 2]\<rparr>) = Some ann
   \<and> selectedChat (ann_with_bob\<lparr>unreadCounts := [''u3'' \<mapsto> 2]\<rparr>) \<noteq> Some cat
   \<and> unreadCounts (snd (selectConversation 1024 cat (ann_with_bob\<lparr>unreadCounts := [''u3'' \<mapsto> 2]\<rparr>)))
       ''u3'' = Some 0
   \<and> actions (snd (selectConversation 1024 cat (ann_with_bob\<lparr>unreadCounts := [''u3'' \<mapsto> 2]\<rparr>)))
       = [SocketEmit (UserOnline ''u1''), ApiGetMessages ''u1_u3'', SocketEmit (JoinChat ''u1_u3'')]"
proof -
  have a: "user (ann_with_bob\<lparr>unreadCounts := [''u3'' \<mapsto> 2]\<rparr>) = Some ann"
    by (simp add: ann_with_bob_def)
  have b: "selectedChat (ann_with_bob\<lparr>unreadCounts := [''u3'' \<mapsto> 2]\<rparr>) \<noteq> Some cat"
    by (simp add: ann_with_bob_def bob_def cat_def)
  show ?thesis
    using selectConversation_resets_unread [OF a b, of 1024] a b
    by (simp add: ann_def cat_def chatId_ann_cat ann_with_bob_def)
qed


section \<open>The legacy fallback of the history\<close>

lemma findIndex_lower: "- 1 \<le> findIndex P xs"
  by (induction xs) (auto simp: Let_def)

lemma findIndex_negative: "findIndex P xs < 0 \<longleftrightarrow> (\<forall>x\<in>set xs. \<not> P x)"
proof (induction xs)
  case Nil
  show ?case by simp
next
  case (Cons x xs)
  have "- 1 \<le> findIndex P xs" by (rule findIndex_lower)
  with Cons show ?case by (auto simp: Let_def)
qed

lemma findIndex_first:
  "i < length xs \<Longrightarrow> P (xs ! i) \<Longrightarrow> findIndex P xs = int i \<longleftrightarrow> (\<forall>j<i. \<not> P (xs ! j))"
proof (induction xs arbitrary: i)
  case Nil
  then show ?case by simp
next
  case (Cons x xs)
  show ?case
  proof (cases i)
    case 0
    with Cons.prems show ?thesis by simp
  next
    case (Suc k)
    with Cons.prems have k: "k < length xs" "P (xs ! k)" by simp_all
    show ?thesis
    proof (cases "P x")
      case True
      then have "findIndex P (x # xs) = 0" by simp
      moreover from True have "\<not> (\<forall>j<i. \<not> P ((x # xs) ! j))"
        using Suc by (auto intro: exI [of _ 0])
      ultimately show ?thesis using Suc by simp
    next
      case False
      from k have "\<not> findIndex P xs < 0"
        by (auto simp: findIndex_negative)
      with False have "findIndex P (x # xs) = findIndex P xs + 1"
        by (simp add: Let_def)
      moreover have "findIndex P xs = int k \<longleftrightarrow> (\<forall>j<k. \<not> P (xs ! j))"
        using Cons.IH [OF k] .
      moreover have "(\<forall>j<Suc k. \<not> P ((x # xs) ! j)) \<longleftrightarrow> (\<forall>j<k. \<not> P (xs ! j))"
        using False by (auto simp: less_Suc_eq_0_disj)
      ultimately show ?thesis using Suc by simp
    qed
  qed
qed

lemma isConversationMessage_between:
  "isConversationMessage u sel msg = between (user_id u) (cu_id sel) msg"
  by (auto simp: isConversationMessage_def between_def)

lemma kept_pointwise:
  assumes "i < length xs"
  shows "(let firstIndex = findIndex (\<lambda>m. r_id m = r_id (xs ! i)) xs
          in if firstIndex \<noteq> int i then False else isConversationMessage u sel (xs ! i))
         = kept_index u sel xs i"
proof -
  have "findIndex (\<lambda>m. r_id m = r_id (xs ! i)) xs = int i
          \<longleftrightarrow> (\<forall>j<i. r_id (xs ! j) \<noteq> r_id (xs ! i))"
    using findIndex_first [OF assms, of "\<lambda>m. r_id m = r_id (xs ! i)"] by simp
  then show ?thesis
    by (auto simp: kept_index_def first_of_its_id_def isConversationMessage_between Let_def)
qed

lemma combined_filter:
  "filter_indexed
          (\<lambda>msg index array.
             let firstIndex = findIndex (\<lambda>m. r_id m = r_id msg) array
             in if firstIndex \<noteq> int index then False
                else isConversationMessage u sel msg) xs
   = map (\<lambda>i. xs ! i) (filter (kept_index u sel xs) [0..<length xs])"
proof -
  have "filter (\<lambda>i. let firstIndex = findIndex (\<lambda>m. r_id m = r_id (xs ! i)) xs
                    in if firstIndex \<noteq> int i then False
                       else isConversationMessage u sel (xs ! i)) [0..<length xs]
        = filter (kept_index u sel xs) [0..<length xs]"
    by (rule filter_cong) (simp_all only: kept_pointwise set_upt atLeastLessThan_iff)
  then show ?thesis
    unfolding filter_indexed_def by (rule arg_cong)
qed

lemma kept_ids_inj: "inj_on (\<lambda>i. r_id (xs ! i)) {i. i < length xs \<and> kept_index u sel xs i}"
proof (rule inj_onI)
  fix i k
  assume i: "i \<in> {i. i < length xs \<and> kept_index u sel xs i}"
    and k: "k \<in> {i. i < length xs \<and> kept_index u sel xs i}"
    and eq: "r_id (xs ! i) = r_id (xs ! k)"
  show "i = k"
  proof (rule ccontr)
    assume "i \<noteq> k"
    then consider "i < k" | "k < i" by linarith
    then show False
    proof cases
      case 1
      with k eq show False by (auto simp: kept_index_def first_of_its_id_def)
    next
      case 2
      with i eq show False by (auto simp: kept_index_def first_of_its_id_def)
    qed
  qed
qed

lemma distinct_map_insort_key:
  "distinct (map g (insort_key f x xs)) = distinct (map g (x # xs))"
  by (induction xs) (auto simp: set_insort_key)

lemma distinct_map_sort_key: "distinct (map g (sort_key f xs)) = distinct (map g xs)"
  by (induction xs) (simp_all add: distinct_map_insort_key)

lemma combinedMessages_sorted: "sorted (map r_timestamp (combinedMessages u sel xs))"
  by (simp add: combinedMessages_def)

lemma combinedMessages_distinct: "distinct (map r_id (combinedMessages u sel xs))"
proof -
  have "distinct (map (\<lambda>i. r_id (xs ! i)) (filter (kept_index u sel xs) [0..<length xs]))"
    by (rule iffD2 [OF distinct_map])
       (auto intro: inj_on_subset [OF kept_ids_inj])
  then show ?thesis
    unfolding combinedMessages_def combined_filter
    by (simp add: distinct_map_sort_key o_def)
qed

lemma combinedMessages_set:
  "set (combinedMessages u sel xs) = {xs ! i | i. i < length xs \<and> kept_index u sel xs i}"
  unfolding combinedMessages_def combined_filter by auto

text \<open>
  C9. When the query by pairing identifier answers with the empty list (and the two
  legacy queries answer), \<open>fetchMessages\<close> has asked for the histories of the user and of
  the selected conversation, in this order, and displays, formatted, the messages of
  their concatenation that are the first occurrence of their id and pair the two
  participants in either orientation: each id once, in ascending order of the timestamps.
\<close>

theorem fetchMessages_legacy_fallback:
  assumes "user st = Some u" and "selectedChat st = Some sel"
    and "getMessages chatId = Inr []"
    and "getMessages (user_id u) = Inr data1"
    and "getMessages (cu_id sel) = Inr data2"
  shows "messages (fetchMessages getMessages fmt chatId st)
           = map (formatMessage fmt (Some u)) (combinedMessages u sel (data1 @ data2))
       \<and> sorted (map r_timestamp (combinedMessages u sel (data1 @ data2)))
       \<and> distinct (map r_id (combinedMessages u sel (data1 @ data2)))
       \<and> set (combinedMessages u sel (data1 @ data2))
           = {(data1 @ data2) ! i | i. i < length (data1 @ data2)
                \<and> first_of_its_id (data1 @ data2) i
                \<and> between (user_id u) (cu_id sel) ((data1 @ data2) ! i)}
       \<and> actions (fetchMessages getMessages fmt chatId st)
           = actions st @ [ApiGetMessages chatId, ApiGetMessages (user_id u),
                           ApiGetMessages (cu_id sel)]"
proof -
  from assms have "messages (fetchMessages getMessages fmt chatId st)
           = map (formatMessage fmt (Some u)) (combinedMessages u sel (data1 @ data2))"
    by (simp add: fetchMessages_def fetchMessages_begin_def fetchMessages_resume_def
          oldFormats_def perform_def Let_def)
  moreover from assms have "actions (fetchMessages getMessages fmt chatId st)
           = actions st @ [ApiGetMessages chatId, ApiGetMessages (user_id u),
                           ApiGetMessages (cu_id sel)]"
    by (simp add: fetchMessages_def fetchMessages_begin_def fetchMessages_resume_def
          oldFormats_def perform_def Let_def)
  moreover have "set (combinedMessages u sel (data1 @ data2))
           = {(data1 @ data2) ! i | i. i < length (data1 @ data2)
                \<and> first_of_its_id (data1 @ data2) i
                \<and> between (user_id u) (cu_id sel) ((data1 @ data2) ! i)}"
    unfolding combinedMessages_set kept_index_def ..
  ultimately show ?thesis
    using combinedMessages_sorted combinedMessages_distinct by blast
qed

lemma ann_signed_in: "user ann_with_bob = Some ann"
  by (simp add: ann_with_bob_def)

lemma bob_selected: "selectedChat ann_with_bob = Some bob"
  by (simp add: ann_with_bob_def)

lemma nothing_under_pairing_id: "legacy_history ''u1_u2'' = Inr []"
  by (simp add: legacy_history_def)

lemma legacy_of_ann: "legacy_history (user_id ann) = Inr ann_history"
  by (simp add: legacy_history_def ann_def)

lemma legacy_of_bob: "legacy_history (cu_id bob) = Inr bob_history"
  by (simp add: legacy_history_def bob_def)

lemma combined_sample:
  "map (formatMessage utc_hh_mm (Some ann)) (combinedMessages ann bob (ann_history @ bob_history))
   = [\<lparr>m_id = ''c'', m_text = ''hello'', m_timestamp = ''00:01'', m_sender = Other\<rparr>,
      \<lparr>m_id = ''a'', m_text = ''see you'', m_timestamp = ''12:34'', m_sender = Me\<rparr>]"
  unfolding ann_def bob_def ann_history_def bob_history_def by code_simp

text \<open>
  C9, at an input: of the four legacy messages, the one of the conversation with Cat and
  the second copy of \<open>a\<close> are dropped, and \<open>c\<close> is displayed before the later \<open>a\<close>.
\<close>

theorem fetchMessages_legacy_fallback_witness:
  "user ann_with_bob = Some ann \<and> selectedChat ann_with_bob = Some bob
   \<and> legacy_history ''u1_u2'' = Inr []
   \<and> legacy_history (user_id ann) = Inr ann_history
   \<and> legacy_history (cu_id bob) = Inr bob_history
   \<and> messages (fetchMessages legacy_history utc_hh_mm ''u1_u2'' ann_with_bob)
       = [\<lparr>m_id = ''c'', m_text = ''hello'', m_timestamp = ''00:01'', m_sender = Other\<rparr>,
          \<lparr>m_id = ''a'', m_text = ''see you'', m_timestamp = ''12:34'', m_sender = Me\<rparr>]
   \<and> actions (fetchMessages legacy_history utc_hh_mm ''u1_u2'' ann_with_bob)
       = [ApiGetMessages ''u1_u2'', ApiGetMessages ''u1'', ApiGetMessages ''u2'']"
proof -
  note fallback = fetchMessages_legacy_fallback [OF ann_signed_in bob_selected
      nothing_under_pairing_id legacy_of_ann legacy_of_bob, of utc_hh_mm]
  from fallback have "messages (fetchMessages legacy_history utc_hh_mm ''u1_u2'' ann_with_bob)
       = [\<lparr>m_id = ''c'', m_text = ''hello'', m_timestamp = ''00:01'', m_sender = Other\<rparr>,
          \<lparr>m_id = ''a'', m_text = ''see you'', m_timestamp = ''12:34'', m_sender = Me\<rparr>]"
    unfolding combined_sample by (rule conjunct1)
  moreover from fallback
  have "actions (fetchMessages legacy_history utc_hh_mm ''u1_u2'' ann_with_bob)
       = [ApiGetMessages ''u1_u2'', ApiGetMessages ''u1'', ApiGetMessages ''u2'']"
    by (simp add: ann_with_bob_def ann_def bob_def)
  ultimately show ?thesis
    using ann_signed_in bob_selected nothing_under_pairing_id legacy_of_ann legacy_of_bob
    by simp
qed


section \<open>Receiving a relayed message\<close>

lemma messages_receiveMessage:
  "messages (receiveMessage fmt now ev st) =
     (if Some (e_userId ev) \<noteq> map_option user_id (user st)
         \<and> \<not> list_ex (\<lambda>msg. Some (m_id msg) = e_id ev) (messages st)
      then messages st @ [\<lparr>m_id = (case e_id ev of Some i \<Rightarrow> if i \<noteq> [] then i else now
                                                  | None \<Rightarrow> now),
                            m_text = e_text ev, m_timestamp = fmt (e_timestamp ev),
                            m_sender = Other\<rparr>]
      else messages st)"
  by (simp add: receiveMessage_def perform_def Let_def)

lemma user_receiveMessage: "user (receiveMessage fmt now ev st) = user st"
  by (simp add: receiveMessage_def perform_def Let_def)

lemma list_ex_displayed:
  "list_ex (\<lambda>msg. m_id msg = i) (messages st) \<longleftrightarrow> 0 < displayed i st"
  by (auto simp: displayed_def list_ex_iff filter_empty_conv)

lemma displayed_receive_known:
  assumes "e_id ev = Some i" and "displayed i st \<noteq> 0"
  shows "displayed i (receiveMessage fmt now ev st) = displayed i st"
proof -
  from assms have "messages (receiveMessage fmt now ev st) = messages st"
    by (simp add: messages_receiveMessage list_ex_displayed)
  then show ?thesis by (simp add: displayed_def)
qed

lemma displayed_receive_new:
  assumes "e_id ev = Some i" and "displayed i st = 0" and "i \<noteq> []"
    and "Some (e_userId ev) \<noteq> map_option user_id (user st)"
  shows "displayed i (receiveMessage fmt now ev st) = 1"
proof -
  from assms have "messages (receiveMessage fmt now ev st)
      = messages st @ [\<lparr>m_id = i, m_text = e_text ev, m_timestamp = fmt (e_timestamp ev),
                         m_sender = Other\<rparr>]"
    by (simp add: messages_receiveMessage list_ex_displayed)
  with assms(2) show ?thesis by (simp add: displayed_def)
qed

lemma displayed_echo:
  "displayed i (handleSendMessage_resume fmt t t' ps (Inr i) st) = displayed i st + 1"
  by (simp add: displayed_def handleSendMessage_resume_def perform_def Let_def)

lemma displayed_start: "displayed ''m100'' ann_with_bob = 0"
  by (simp add: displayed_def ann_with_bob_def)

text \<open>
  C4, as stated, fails. An event whose id is the empty string, delivered twice, is
  displayed twice: the handler looks for the id among the displayed messages, but files
  the message under the clock reading, since the empty id is falsy, and the second
  delivery finds nothing. And a message of the user herself that reaches her view only as
  a relayed event, delivered twice, is not displayed at all: the handler skips the events
  of the local user.
\<close>

theorem same_id_not_displayed_once:
  "messages (receiveMessage utc_hh_mm ''1700000000001'' (relayed (Some []) ''u2'')
       (receiveMessage utc_hh_mm ''1700000000000'' (relayed (Some []) ''u2'') ann_with_bob))
     = [\<lparr>m_id = ''1700000000000'', m_text = ''yo'', m_timestamp = ''12:34'', m_sender = Other\<rparr>,
        \<lparr>m_id = ''1700000000001'', m_text = ''yo'', m_timestamp = ''12:34'', m_sender = Other\<rparr>]
   \<and> displayed [] (receiveMessage utc_hh_mm ''1700000000001'' (relayed (Some []) ''u2'')
       (receiveMessage utc_hh_mm ''1700000000000'' (relayed (Some []) ''u2'') ann_with_bob)) \<noteq> 1
   \<and> user ann_with_bob = Some ann \<and> user_id ann = ''u1''
   \<and> displayed ''m100'' (receiveMessage utc_hh_mm ''1700000000001'' (relayed (Some ''m100'') ''u1'')
       (receiveMessage utc_hh_mm ''1700000000000'' (relayed (Some ''m100'') ''u1'') ann_with_bob))
       = 0"
  by (simp add: displayed_def messages_receiveMessage user_receiveMessage relayed_def
        ann_with_bob_def ann_def utc_hh_mm_sample)

text \<open>
  C4, amended. Let no displayed message have the id \<open>i\<close>. After the local echo of a send
  under \<open>i\<close>, a relayed event carrying \<open>i\<close> (from whomever) leaves \<open>i\<close> displayed exactly
  once. And when \<open>i\<close> is not empty, an event of another user carrying \<open>i\<close>, followed by a
  second event carrying \<open>i\<close>, leaves \<open>i\<close> displayed exactly once.
\<close>

theorem same_id_displayed_once:
  assumes "displayed i st = 0" and "e_id ev = Some i"
  shows "displayed i (receiveMessage fmt now ev (handleSendMessage_resume fmt t t' ps (Inr i) st)) = 1
       \<and> (i \<noteq> [] \<and> Some (e_userId ev) \<noteq> map_option user_id (user st) \<and> e_id ev' = Some i
            \<longrightarrow> displayed i (receiveMessage fmt now' ev' (receiveMessage fmt now ev st)) = 1)"
proof (intro conjI impI)
  have "displayed i (handleSendMessage_resume fmt t t' ps (Inr i) st) = 1"
    using assms(1) by (simp add: displayed_echo)
  then show "displayed i (receiveMessage fmt now ev
                 (handleSendMessage_resume fmt t t' ps (Inr i) st)) = 1"
    using displayed_receive_known [OF assms(2), of "handleSendMessage_resume fmt t t' ps (Inr i) st"]
    by simp
next
  assume h: "i \<noteq> [] \<and> Some (e_userId ev) \<noteq> map_option user_id (user st) \<and> e_id ev' = Some i"
  then have "displayed i (receiveMessage fmt now ev st) = 1"
    using displayed_receive_new [OF assms(2) assms(1)] by simp
  then show "displayed i (receiveMessage fmt now' ev' (receiveMessage fmt now ev st)) = 1"
    using h displayed_receive_known [of ev' i "receiveMessage fmt now ev st"] by simp
qed

text \<open>
  C4, amended, at an input: Ann's message \<open>m100\<close>, echoed and then relayed back to her,
  and Bob's message \<open>m100\<close>, relayed twice.
\<close>

theorem same_id_displayed_once_witness:
  "displayed ''m100'' ann_with_bob = 0 \<and> e_id (relayed (Some ''m100'') ''u1'') = Some ''m100''
   \<and> displayed ''m100'' (receiveMessage utc_hh_mm ''1700000000000'' (relayed (Some ''m100'') ''u1'')
        (handleSendMessage_resume utc_hh_mm 45296000 45296002 ann_sends_hi (Inr ''m100'') ann_with_bob)) = 1
   \<and> displayed ''m100'' (receiveMessage utc_hh_mm ''1700000000001'' (relayed (Some ''m100'') ''u2'')
        (receiveMessage utc_hh_mm ''1700000000000'' (relayed (Some ''m100'') ''u2'') ann_with_bob)) = 1"
proof -
  have a: "e_id (relayed (Some ''m100'') ''u1'') = Some ''m100''"
    by (simp add: relayed_def)
  have b: "e_id (relayed (Some ''m100'') ''u2'') = Some ''m100''"
    by (simp add: relayed_def)
  have c: "Some (e_userId (relayed (Some ''m100'') ''u2''))
             \<noteq> map_option user_id (user ann_with_bob)"
    by (simp add: relayed_def ann_with_bob_def ann_def)
  show ?thesis
    using same_id_displayed_once [OF displayed_start a,
            of utc_hh_mm "''1700000000000''" 45296000 45296002 ann_sends_hi]
          same_id_displayed_once [OF displayed_start b,
            of utc_hh_mm "''1700000000000''" 45296000 45296002 ann_sends_hi "relayed (Some ''m100'') ''u2''"
               "''1700000000001''"]
          a b c displayed_start
    by simp
qed

text \<open>
  The unread counters: the handler changes at most the counter of the sender of the
  event, and only when the sender is neither the open conversation nor the user.
\<close>

lemma unread_receiveMessage:
  "unreadCounts (receiveMessage fmt now ev st) k \<noteq> unreadCounts st k
     \<Longrightarrow> k = e_userId ev \<and> map_option cu_id (selectedChat st) \<noteq> Some k
         \<and> Some k \<noteq> map_option user_id (user st)"
  by (auto simp: receiveMessage_def perform_def Let_def split: if_splits)

text \<open>
  C5, on the code: Ann has the conversation with Bob open and a message of Cat is relayed
  to her. The unread counter of Cat goes up, and the message is appended to the displayed
  sequence of the open conversation all the same.
\<close>

theorem message_of_other_conversation_displayed:
  "selectedChat ann_with_bob = Some bob \<and> cu_id bob = ''u2''
   \<and> e_userId cat_writes = ''u3'' \<and> e_chatId cat_writes = ''u1_u3''
   \<and> messages (receiveMessage utc_hh_mm ''1700000000000'' cat_writes ann_with_bob)
       = messages ann_with_bob
         @ [\<lparr>m_id = ''m7'', m_text = ''hi ann'', m_timestamp = ''12:34'', m_sender = Other\<rparr>]
   \<and> unreadCounts (receiveMessage utc_hh_mm ''1700000000000'' cat_writes ann_with_bob) ''u3''
       = Some 1"
  by (simp add: receiveMessage_def perform_def Let_def cat_writes_def ann_with_bob_def ann_def
        bob_def utc_hh_mm_sample)


section \<open>The call view: release of media, failure of acquisition, candidates\<close>

lemma run_Cons: "run (ev # evs) st = run evs (step ev st)"
  by (simp add: run_def)

lemma in_live_tracks:
  "(sid, i) \<in> set (live_tracks st)
     \<longleftrightarrow> sid < length (streams st) \<and> i < length (streams st ! sid)
         \<and> \<not> stopped (streams st ! sid ! i)"
  by (auto simp: live_tracks_def)

text \<open>
  Once the view is unmounted, no event touches a stream that was handed out: a track
  that is live then stays live.
\<close>

lemma step_after_unmount:
  assumes "\<not> mounted st" and "gone st"
  shows "\<not> mounted (step ev st) \<and> gone (step ev st)
       \<and> (\<exists>more. streams (step ev st) = streams st @ more)"
proof (cases ev)
  case (MediaResolved kinds)
  with assms show ?thesis
    by (simp add: step_def initializeMedia_resolved_def initializeMedia_catch_def
          addTracks_def act_def Let_def split: option.splits)
next
  case (IceCandidate c taken)
  with assms show ?thesis
    by (simp add: step_def handleIceCandidate_def act_def Let_def split: option.splits)
qed (use assms in \<open>simp_all add: step_def initializeMedia_rejected_def
        initializeMedia_catch_def act_def\<close>)

lemma run_after_unmount:
  assumes "\<not> mounted st" and "gone st"
  shows "\<not> mounted (run evs st) \<and> gone (run evs st)
       \<and> (\<exists>more. streams (run evs st) = streams st @ more)"
  using assms
proof (induction evs arbitrary: st)
  case Nil
  then show ?case by (simp add: run_def)
next
  case (Cons ev evs)
  from step_after_unmount [OF Cons.prems]
  obtain m1 where s: "\<not> mounted (step ev st)" "gone (step ev st)"
      "streams (step ev st) = streams st @ m1"
    by blast
  from Cons.IH [OF s(1) s(2)] s(3) show ?case
    by (auto simp: run_Cons)
qed

lemma live_tracks_never_released:
  assumes "\<not> mounted st" and "gone st"
  shows "set (live_tracks st) \<subseteq> set (live_tracks (run evs st))"
proof
  fix x assume x: "x \<in> set (live_tracks st)"
  obtain sid i where xi: "x = (sid, i)" by (cases x)
  from run_after_unmount [OF assms] obtain more
    where m: "streams (run evs st) = streams st @ more" by blast
  from x xi have "sid < length (streams st)" "i < length (streams st ! sid)"
      "\<not> stopped (streams st ! sid ! i)"
    by (simp_all add: in_live_tracks)
  with m show "x \<in> set (live_tracks (run evs st))"
    unfolding xi in_live_tracks by (simp add: nth_append)
qed

text \<open>
  C1, on the code: a video call is shown, the user hangs up before \<open>getUserMedia\<close> has
  settled, and the promise resolves afterwards with an audio and a video track. The
  cleanup found no stream to stop; the stream that arrives late is stored in the ref of
  the view that is gone, and both its tracks stay live. The same happens when the view
  of an incoming call is unmounted while the acquisition is pending. (When the promise
  resolves before the hang-up, the cleanup stops both tracks.)
\<close>

theorem stream_acquired_after_hang_up_stays_live:
  "live_tracks (run [Mount, ClickHangUp, MediaResolved [AudioTrack, VideoTrack]]
                  (video_call_to_bob Connected)) = [(0, 0), (0, 1)]
   \<and> \<not> mounted (run [Mount, ClickHangUp, MediaResolved [AudioTrack, VideoTrack]]
                  (video_call_to_bob Connected))
   \<and> pendingMedia (run [Mount, ClickHangUp, MediaResolved [AudioTrack, VideoTrack]]
                  (video_call_to_bob Connected)) = 0
   \<and> live_tracks (run [Mount, Unmount, MediaResolved [AudioTrack]]
                  (video_call_to_bob Incoming)) = [(0, 0)]
   \<and> live_tracks (run [Mount, MediaResolved [AudioTrack, VideoTrack], ClickHangUp]
                  (video_call_to_bob Connected)) = []"
  unfolding video_call_to_bob_def by code_simp

text \<open>
  C6, as stated, fails: after a failed acquisition for an incoming call the view is still
  mounted with the status \<open>Incoming\<close>; the failure was logged and the alert shown, and
  nothing else happened.
\<close>

theorem media_failure_leaves_session_open:
  "\<not> session_ended (run [Mount, MediaRejected] (video_call_to_bob Incoming))
   \<and> callStatus (run [Mount, MediaRejected] (video_call_to_bob Incoming)) = Incoming
   \<and> performed (run [Mount, MediaRejected] (video_call_to_bob Incoming))
       = [GetUserMedia True, NewPeerConnection 0, SocketOn ''offer'', SocketOn ''answer'',
          SocketOn ''ice-candidate'', ConsoleErrorMedia,
          Alert ''Unable to access camera or microphone. Please check permissions.'']"
  unfolding video_call_to_bob_def session_ended_def by code_simp

text \<open>
  C6, amended. When a pending acquisition of local media fails, the failure is logged and
  the user is alerted; no new acquisition is requested, and everything else, the call
  status, the mounted view, the connection and the listeners, is as before: the call is
  not ended.
\<close>

theorem media_failure_alerts_only:
  assumes "0 < pendingMedia st"
  shows "step MediaRejected st
     = st\<lparr>pendingMedia := pendingMedia st - 1,
          performed := performed st
            @ [ConsoleErrorMedia,
               Alert ''Unable to access camera or microphone. Please check permissions.'']\<rparr>"
  using assms
  by (simp add: step_def initializeMedia_rejected_def initializeMedia_catch_def act_def)

text \<open>C6, amended, at an input: the incoming video call, right after the mount.\<close>

theorem media_failure_alerts_only_witness:
  "0 < pendingMedia (run [Mount] (video_call_to_bob Incoming))
   \<and> performed (step MediaRejected (run [Mount] (video_call_to_bob Incoming)))
       = [GetUserMedia True, NewPeerConnection 0, SocketOn ''offer'', SocketOn ''answer'',
          SocketOn ''ice-candidate'', ConsoleErrorMedia,
          Alert ''Unable to access camera or microphone. Please check permissions.'']
   \<and> mounted (step MediaRejected (run [Mount] (video_call_to_bob Incoming)))
   \<and> callStatus (step MediaRejected (run [Mount] (video_call_to_bob Incoming))) = Incoming"
proof -
  have h: "0 < pendingMedia (run [Mount] (video_call_to_bob Incoming))"
    unfolding video_call_to_bob_def by code_simp
  have p: "performed (run [Mount] (video_call_to_bob Incoming))
       = [GetUserMedia True, NewPeerConnection 0, SocketOn ''offer'', SocketOn ''answer'',
          SocketOn ''ice-candidate'']"
    unfolding video_call_to_bob_def by code_simp
  have m: "mounted (run [Mount] (video_call_to_bob Incoming))"
    unfolding video_call_to_bob_def by code_simp
  have c: "callStatus (run [Mount] (video_call_to_bob Incoming)) = Incoming"
    unfolding video_call_to_bob_def by code_simp
  show ?thesis
    using media_failure_alerts_only [OF h] h by (simp add: p m c)
qed

lemma addTracks_open:
  assumes "p < length (connections st)" and "\<not> pc_closed (connections st ! p)"
  shows "\<exists>st'. addTracks p sid st = Inr st'
           \<and> listening st' = listening st \<and> peerConnectionRef st' = peerConnectionRef st
           \<and> performed st' = performed st
           \<and> length (connections st') = length (connections st)
           \<and> pc_closed (connections st' ! p) = pc_closed (connections st ! p)
           \<and> pc_candidates (connections st' ! p) = pc_candidates (connections st ! p)"
  using assms by (simp add: addTracks_def Let_def)

lemma handed_over_append: "handed_over (xs @ ys) = handed_over xs @ handed_over ys"
  by (induction xs rule: handed_over.induct) simp_all

lemma candidates_of_Cons: "candidates_of (ev # evs) = candidates_of [ev] @ candidates_of evs"
  by (cases ev) simp_all

lemma taken_of_Cons: "taken_of (ev # evs) = taken_of [ev] @ taken_of evs"
  by (cases ev) simp_all

text \<open>
  While the ref points to an open connection: a candidate is handed to that connection,
  and applied when the connection takes it; the other events leave the candidates alone.
\<close>

lemma ready_candidate:
  assumes "ready p st"
  shows "ready p (step (IceCandidate c taken) st)
       \<and> pc_candidates (connections (step (IceCandidate c taken) st) ! p)
           = pc_candidates (connections st ! p) @ (if taken then [c] else [])
       \<and> handed_over (performed (step (IceCandidate c taken) st))
           = handed_over (performed st) @ [(p, c)]"
  using assms
  by (simp add: ready_def step_def handleIceCandidate_def act_def Let_def handed_over_append)

lemma ready_rejected:
  assumes "ready p st"
  shows "ready p (step MediaRejected st)
       \<and> pc_candidates (connections (step MediaRejected st) ! p)
           = pc_candidates (connections st ! p)
       \<and> handed_over (performed (step MediaRejected st)) = handed_over (performed st)"
  using assms
  by (simp add: ready_def step_def initializeMedia_rejected_def initializeMedia_catch_def
        act_def handed_over_append)

lemma ready_tick:
  assumes "ready p st"
  shows "ready p (step Tick st)
       \<and> pc_candidates (connections (step Tick st) ! p) = pc_candidates (connections st ! p)
       \<and> handed_over (performed (step Tick st)) = handed_over (performed st)"
  using assms by (simp add: ready_def step_def)

lemma ready_resolved:
  assumes "ready p st"
  shows "ready p (step (MediaResolved kinds) st)
       \<and> pc_candidates (connections (step (MediaResolved kinds) st) ! p)
           = pc_candidates (connections st ! p)
       \<and> handed_over (performed (step (MediaResolved kinds) st)) = handed_over (performed st)"
proof (cases "0 < pendingMedia st")
  case False
  with assms show ?thesis by (simp add: step_def)
next
  case True
  define st3 where "st3 =
     (let sid = length (streams st);
          stream = map (\<lambda>k. \<lparr>kind = k, enabled = True, stopped = False\<rparr>) kinds;
          st1 = st\<lparr>streams := streams st @ [stream], pendingMedia := pendingMedia st - 1\<rparr>;
          st2 = st1\<lparr>localStreamRef := Some sid\<rparr>
      in (if mounted st2 \<and> isVideoCall st2 then st2\<lparr>localVideoSrc := Some sid\<rparr> else st2))"
  have r3: "ready p st3" and c3: "connections st3 = connections st"
    and p3: "performed st3 = performed st"
    using assms by (simp_all add: st3_def ready_def Let_def)
  from r3 obtain st4 where st4: "addTracks p (length (streams st)) st3 = Inr st4"
      "listening st4 = listening st3" "peerConnectionRef st4 = peerConnectionRef st3"
      "performed st4 = performed st3"
      "length (connections st4) = length (connections st3)"
      "pc_closed (connections st4 ! p) = pc_closed (connections st3 ! p)"
      "pc_candidates (connections st4 ! p) = pc_candidates (connections st3 ! p)"
    using addTracks_open [of p st3 "length (streams st)"] by (auto simp: ready_def)
  have "step (MediaResolved kinds) st = st4"
    using True r3 st4(1)
    by (simp add: step_def initializeMedia_resolved_def st3_def ready_def Let_def)
  with r3 st4 c3 p3 show ?thesis by (simp add: ready_def)
qed

lemma ready_step:
  assumes "ready p st" and "while_active ev"
  shows "ready p (step ev st)
       \<and> pc_candidates (connections (step ev st) ! p)
           = pc_candidates (connections st ! p) @ taken_of [ev]
       \<and> handed_over (performed (step ev st))
           = handed_over (performed st) @ map (Pair p) (candidates_of [ev])"
  using assms ready_candidate ready_rejected ready_resolved ready_tick
  by (cases ev) simp_all

lemma ready_run:
  assumes "ready p st" and "list_all while_active evs"
  shows "ready p (run evs st)
       \<and> pc_candidates (connections (run evs st) ! p)
           = pc_candidates (connections st ! p) @ taken_of evs
       \<and> handed_over (performed (run evs st))
           = handed_over (performed st) @ map (Pair p) (candidates_of evs)"
  using assms
proof (induction evs arbitrary: st)
  case Nil
  then show ?case by (simp add: run_def)
next
  case (Cons ev evs)
  from Cons.prems have s: "ready p (step ev st)"
      "pc_candidates (connections (step ev st) ! p)
         = pc_candidates (connections st ! p) @ taken_of [ev]"
      "handed_over (performed (step ev st))
         = handed_over (performed st) @ map (Pair p) (candidates_of [ev])"
    using ready_step [of p st ev] by simp_all
  from Cons.prems have "list_all while_active evs" by simp
  from Cons.IH [OF s(1) this] s(2) s(3) show ?case
    by (simp add: run_Cons candidates_of_Cons [of ev evs] taken_of_Cons [of ev evs])
qed

text \<open>
  While the ref is empty: no connection is created or changed and no candidate is handed
  to one.
\<close>

lemma idle_step:
  assumes "peerConnectionRef st = None" and "while_active ev"
  shows "peerConnectionRef (step ev st) = None
       \<and> connections (step ev st) = connections st
       \<and> handed_over (performed (step ev st)) = handed_over (performed st)"
proof (cases ev)
  case (MediaResolved kinds)
  with assms show ?thesis
    by (simp add: step_def initializeMedia_resolved_def Let_def)
next
  case MediaRejected
  with assms show ?thesis
    by (simp add: step_def initializeMedia_rejected_def initializeMedia_catch_def act_def
          handed_over_append)
next
  case (IceCandidate c taken)
  with assms show ?thesis
    by (simp add: step_def handleIceCandidate_def)
qed (use assms in \<open>simp_all add: step_def\<close>)

lemma idle_run:
  assumes "peerConnectionRef st = None" and "list_all while_active evs"
  shows "peerConnectionRef (run evs st) = None
       \<and> connections (run evs st) = connections st
       \<and> handed_over (performed (run evs st)) = handed_over (performed st)"
  using assms
proof (induction evs arbitrary: st)
  case Nil
  then show ?case by (simp add: run_def)
next
  case (Cons ev evs)
  from Cons.prems have s: "peerConnectionRef (step ev st) = None"
      "connections (step ev st) = connections st"
      "handed_over (performed (step ev st)) = handed_over (performed st)"
    using idle_step [of st ev] by simp_all
  from Cons.prems have "list_all while_active evs" by simp
  from Cons.IH [OF s(1) this] s(2) s(3) show ?case
    by (simp add: run_Cons)
qed

lemma effect_run_idle:
  assumes "callStatus st = Outgoing" and "peerConnectionRef st = None"
  shows "peerConnectionRef (effect_run st) = None
       \<and> connections (effect_run st) = connections st
       \<and> handed_over (performed (effect_run st)) = handed_over (performed st)"
  using assms by (simp add: effect_run_def act_def Let_def handed_over_append)

lemma setupPeerConnection_fresh:
  "peerConnectionRef (setupPeerConnection st) = Some (length (connections st))
   \<and> length (connections st) < length (connections (setupPeerConnection st))
   \<and> \<not> pc_closed (connections (setupPeerConnection st) ! length (connections st))
   \<and> pc_candidates (connections (setupPeerConnection st) ! length (connections st)) = []
   \<and> performed (setupPeerConnection st) = performed st @ [NewPeerConnection (length (connections st))]
   \<and> listening (setupPeerConnection st) = listening st"
proof -
  define pc where "pc = length (connections st)"
  define st1 where "st1 = (act (NewPeerConnection pc) st)
                  \<lparr>connections := connections st
                     @ [\<lparr>pc_closed = False, pc_tracks = [], pc_candidates = []\<rparr>],
                   peerConnectionRef := Some pc\<rparr>"
  have b: "pc < length (connections st1)" "\<not> pc_closed (connections st1 ! pc)"
      "pc_candidates (connections st1 ! pc) = []" "peerConnectionRef st1 = Some pc"
      "performed st1 = performed st @ [NewPeerConnection pc]" "listening st1 = listening st"
    by (simp_all add: st1_def pc_def act_def)
  show ?thesis
  proof (cases "localStreamRef st1")
    case None
    then have "setupPeerConnection st = st1"
      by (simp add: setupPeerConnection_def st1_def pc_def Let_def)
    with b show ?thesis by (simp add: pc_def)
  next
    case (Some sid)
    from addTracks_open [OF b(1) b(2), of sid] obtain st2 where st2:
      "addTracks pc sid st1 = Inr st2"
      "listening st2 = listening st1" "peerConnectionRef st2 = peerConnectionRef st1"
      "performed st2 = performed st1"
      "length (connections st2) = length (connections st1)"
      "pc_closed (connections st2 ! pc) = pc_closed (connections st1 ! pc)"
      "pc_candidates (connections st2 ! pc) = pc_candidates (connections st1 ! pc)"
      by blast
    from Some st2(1) have "setupPeerConnection st = st2"
      by (simp add: setupPeerConnection_def st1_def pc_def Let_def)
    with b st2 show ?thesis by (simp add: pc_def)
  qed
qed

lemma effect_run_ready:
  assumes "callStatus st = Connected \<or> callStatus st = Incoming"
  shows "ready (length (connections st)) (effect_run st)
       \<and> pc_candidates (connections (effect_run st) ! length (connections st)) = []
       \<and> performed (effect_run st)
           = performed st @ [GetUserMedia (isVideoCall st),
                             NewPeerConnection (length (connections st)),
                             SocketOn ''offer'', SocketOn ''answer'', SocketOn ''ice-candidate'']"
proof -
  define st1 where "st1 = initializeMedia_begin (st\<lparr>timer := (callStatus st = Connected)\<rparr>)"
  have c: "connections st1 = connections st"
      "performed st1 = performed st @ [GetUserMedia (isVideoCall st)]"
    by (simp_all add: st1_def initializeMedia_begin_def act_def)
  have e: "effect_run st
      = (act (SocketOn ''ice-candidate'')
          (act (SocketOn ''answer'') (act (SocketOn ''offer'') (setupPeerConnection st1))))
        \<lparr>listening := True\<rparr>"
    using assms by (auto simp: effect_run_def st1_def Let_def)
  show ?thesis
    using setupPeerConnection_fresh [of st1] c
    unfolding e by (simp add: ready_def act_def)
qed

text \<open>
  C2, as stated, fails, in two ways. The view of an outgoing call registers the listener
  without creating a connection: a candidate that arrives then is handed to no connection,
  and the connection created when the status changes to connected does not receive it.
  And creating the connection before the listener is registered does not make every
  candidate applied: on an incoming call, a candidate that the connection refuses (it
  arrives before a remote description is set) is handed over once and lost, while the
  next one is applied.
\<close>

theorem candidate_before_connection_dropped:
  "connections (run [Mount, IceCandidate ''c1'' True, StatusChange Connected]
                  (video_call_to_bob Outgoing))
     = [\<lparr>pc_closed = False, pc_tracks = [], pc_candidates = []\<rparr>]
   \<and> handed_over (performed (run [Mount, IceCandidate ''c1'' True, StatusChange Connected]
                  (video_call_to_bob Outgoing))) = []
   \<and> pc_candidates (connections (run [Mount, IceCandidate ''c1'' False, IceCandidate ''c2'' True]
                  (video_call_to_bob Incoming)) ! 0) = [''c2'']
   \<and> handed_over (performed (run [Mount, IceCandidate ''c1'' False, IceCandidate ''c2'' True]
                  (video_call_to_bob Incoming))) = [(0, ''c1''), (0, ''c2'')]"
  unfolding video_call_to_bob_def by code_simp

text \<open>
  C2, amended. When the effect runs with the status connected or incoming, it creates the
  connection before it registers the listeners; every candidate that arrives while the
  view stays as it is is handed to that connection once, in the order of arrival, and
  the candidates applied to the connection are those it takes, in that order. When the
  effect runs with the status outgoing on a view whose ref holds no connection, no
  connection is created, and a candidate that arrives while the view stays as it is is
  handed to no connection.
\<close>

theorem candidates_reach_connection:
  assumes "list_all while_active evs"
  shows "(callStatus st = Connected \<or> callStatus st = Incoming \<longrightarrow>
            peerConnectionRef (effect_run st) = Some (length (connections st))
          \<and> performed (effect_run st)
              = performed st @ [GetUserMedia (isVideoCall st),
                                NewPeerConnection (length (connections st)),
                                SocketOn ''offer'', SocketOn ''answer'',
                                SocketOn ''ice-candidate'']
          \<and> handed_over (performed (run evs (effect_run st)))
              = handed_over (performed st)
                  @ map (Pair (length (connections st))) (candidates_of evs)
          \<and> pc_candidates (connections (run evs (effect_run st)) ! length (connections st))
              = taken_of evs)
       \<and> (callStatus st = Outgoing \<and> peerConnectionRef st = None \<longrightarrow>
            peerConnectionRef (run evs (effect_run st)) = None
          \<and> connections (run evs (effect_run st)) = connections st
          \<and> handed_over (performed (run evs (effect_run st))) = handed_over (performed st))"
proof (intro conjI impI)
  assume a: "callStatus st = Connected \<or> callStatus st = Incoming"
  note e = effect_run_ready [OF a]
  from e have r: "ready (length (connections st)) (effect_run st)" by simp
  note rr = ready_run [OF r assms]
  from e show "peerConnectionRef (effect_run st) = Some (length (connections st))"
    by (simp add: ready_def)
  from e show "performed (effect_run st)
      = performed st @ [GetUserMedia (isVideoCall st),
                        NewPeerConnection (length (connections st)),
                        SocketOn ''offer'', SocketOn ''answer'', SocketOn ''ice-candidate'']"
    by simp
  from e have "handed_over (performed (effect_run st)) = handed_over (performed st)"
    by (simp add: handed_over_append)
  with rr show "handed_over (performed (run evs (effect_run st)))
      = handed_over (performed st) @ map (Pair (length (connections st))) (candidates_of evs)"
    by simp
  from rr e show "pc_candidates (connections (run evs (effect_run st)) ! length (connections st))
      = taken_of evs"
    by simp
next
  assume a: "callStatus st = Outgoing \<and> peerConnectionRef st = None"
  then have e: "peerConnectionRef (effect_run st) = None"
      "connections (effect_run st) = connections st"
      "handed_over (performed (effect_run st)) = handed_over (performed st)"
    using effect_run_idle [of st] by simp_all
  note ir = idle_run [OF e(1) assms]
  from ir show "peerConnectionRef (run evs (effect_run st)) = None" by simp
  from ir e show "connections (run evs (effect_run st)) = connections st" by simp
  from ir e show "handed_over (performed (run evs (effect_run st))) = handed_over (performed st)"
    by simp
qed

lemma sample_events_active:
  "list_all while_active
     [IceCandidate ''c1'' False, MediaResolved [AudioTrack], IceCandidate ''c2'' True]"
  by simp

lemma sample_calls:
  "callStatus (video_call_to_bob s) = s"
  "peerConnectionRef (video_call_to_bob s) = None"
  "connections (video_call_to_bob s) = []"
  "performed (video_call_to_bob s) = []"
  by (simp_all add: video_call_to_bob_def new_call_def)

text \<open>
  C2, amended, at an input: two candidates arrive, the local stream between them, and
  the connection refuses the first. On an incoming call both are handed to the new
  connection and the second is applied; on an outgoing call neither is handed over.
\<close>

theorem candidates_reach_connection_witness:
  "list_all while_active
     [IceCandidate ''c1'' False, MediaResolved [AudioTrack], IceCandidate ''c2'' True]
   \<and> callStatus (video_call_to_bob Incoming) = Incoming
   \<and> peerConnectionRef (effect_run (video_call_to_bob Incoming)) = Some 0
   \<and> handed_over (performed
        (run [IceCandidate ''c1'' False, MediaResolved [AudioTrack], IceCandidate ''c2'' True]
           (effect_run (video_call_to_bob Incoming))))
       = [(0, ''c1''), (0, ''c2'')]
   \<and> pc_candidates
        (connections
           (run [IceCandidate ''c1'' False, MediaResolved [AudioTrack], IceCandidate ''c2'' True]
              (effect_run (video_call_to_bob Incoming))) ! 0)
       = [''c2'']
   \<and> callStatus (video_call_to_bob Outgoing) = Outgoing
   \<and> peerConnectionRef (video_call_to_bob Outgoing) = None
   \<and> connections
        (run [IceCandidate ''c1'' False, MediaResolved [AudioTrack], IceCandidate ''c2'' True]
           (effect_run (video_call_to_bob Outgoing))) = []
   \<and> handed_over (performed
        (run [IceCandidate ''c1'' False, MediaResolved [AudioTrack], IceCandidate ''c2'' True]
           (effect_run (video_call_to_bob Outgoing)))) = []"
  using candidates_reach_connection [OF sample_events_active, of "video_call_to_bob Incoming"]
        candidates_reach_connection [OF sample_events_active, of "video_call_to_bob Outgoing"]
  by (simp add: sample_calls)


end
